theory Spec2Isabelle
  imports Main "HOL-Library.Log_Nat"
begin

section \<open>Python floats\<close>

text \<open>
  A Python float is an IEEE binary64 number. A finite float is modelled by the rational
  number it denotes, and every float operation of the script is the exact operation
  followed by rounding to the nearest binary64 number, ties to even (\<open>fl\<close>).
  \<open>flog2 x\<close> is the binary exponent of a positive \<open>x\<close>; the exponent of the last
  place is 52 below it, and never below -1074 (the subnormal numbers). Magnitudes of
  2^1024 and more (where binary64 overflows to infinity) do not occur in the script,
  whose numbers stay below 2^15, and are outside this model.
\<close>

type_synonym float = rat

definition flog2 :: "rat \<Rightarrow> int" where
  "flog2 x = (if 1 \<le> x then bitlen \<lfloor>x\<rfloor> - 1 else - bitlen (\<lceil>1 / x\<rceil> - 1))"

definition rhe :: "rat \<Rightarrow> int" where
  "rhe x = (let f = \<lfloor>x\<rfloor>; d = x - of_int f in
     if d < 1 / 2 then f else if 1 / 2 < d then f + 1 else if even f then f else f + 1)"

definition fl :: "rat \<Rightarrow> float" where
  "fl x = (if x = 0 then 0 else
     let e = max (flog2 \<bar>x\<bar> - 52) (- 1074) in
       sgn x * of_int (rhe (\<bar>x\<bar> / 2 powi e)) * 2 powi e)"

definition fadd :: "float \<Rightarrow> float \<Rightarrow> float" where
  "fadd a b = fl (a + b)"

definition fsub :: "float \<Rightarrow> float \<Rightarrow> float" where
  "fsub a b = fl (a - b)"

definition fmul :: "float \<Rightarrow> float \<Rightarrow> float" where
  "fmul a b = fl (a * b)"

text \<open>
  \<open>int / int\<close> of Python is the correctly rounded quotient; the script only divides by
  the literal 3600.
\<close>

definition int_truediv :: "int \<Rightarrow> int \<Rightarrow> float" where
  "int_truediv a b = fl (of_int a / of_int b)"

text \<open>
  \<open>round(x, n)\<close> on a float: the exact value of \<open>x\<close> is rounded to \<open>n\<close> decimal digits,
  ties to even, and the decimal result is converted to the nearest float.
\<close>

definition py_round :: "float \<Rightarrow> nat \<Rightarrow> float" where
  "py_round x n = fl (of_int (rhe (x * 10 ^ n)) / 10 ^ n)"

section \<open>The random source and the clock\<close>

text \<open>
  The script draws from the process-wide generator of Python's \<open>random\<close> module and reads
  the wall clock with \<open>datetime.now()\<close>. Both are outside the repository; they are
  modelled as supplies: \<open>draws\<close> lists the outcomes of the draws to come (a supply that
  runs out goes on with zeros), and \<open>clock n\<close> is the reading of the n-th call of
  \<open>datetime.now()\<close> from here on. A property proved for every world holds for every
  outcome of the generator and every behaviour of the clock.

  A datetime is the number of microseconds since 0001-01-01 00:00:00, a timedelta a
  number of microseconds.
\<close>

type_synonym datetime = int
type_synonym timedelta = int

record world =
  draws :: "nat list"
  clock :: "nat \<Rightarrow> datetime"

definition next_draw :: "world \<Rightarrow> nat \<times> world" where
  "next_draw w = (case draws w of [] \<Rightarrow> (0, w) | x # xs \<Rightarrow> (x, w\<lparr>draws := xs\<rparr>))"

definition randbelow :: "nat \<Rightarrow> world \<Rightarrow> nat \<times> world" where
  "randbelow n w = (let (x, w') = next_draw w in (x mod n, w'))"

datatype error = ValueError

definition randrange :: "int \<Rightarrow> world \<Rightarrow> error + int \<times> world" where
  "randrange n w =
     (if 0 < n then (let (x, w') = randbelow (nat n) w in Inr (int x, w'))
      else Inl ValueError)"

text \<open>Every call of \<open>randint\<close> in the script has literal bounds \<open>a \<le> b\<close>.\<close>

definition randint :: "int \<Rightarrow> int \<Rightarrow> world \<Rightarrow> int \<times> world" where
  "randint a b w = (let (x, w') = randbelow (nat (b - a + 1)) w in (a + int x, w'))"

text \<open>Every call of \<open>choice\<close> in the script has a literal, non-empty list.\<close>

definition choice :: "'a list \<Rightarrow> world \<Rightarrow> 'a \<times> world" where
  "choice xs w = (let (i, w') = randbelow (length xs) w in (xs ! i, w'))"

definition random :: "world \<Rightarrow> float \<times> world" where
  "random w = (let (x, w') = randbelow (2 ^ 53) w in (of_nat x / 2 ^ 53, w'))"

definition uniform :: "int \<Rightarrow> int \<Rightarrow> world \<Rightarrow> float \<times> world" where
  "uniform a b w = (let (r, w') = random w in (fadd (of_int a) (fmul (of_int (b - a)) r), w'))"

definition datetime_now :: "world \<Rightarrow> datetime \<times> world" where
  "datetime_now w = (clock w 0, w\<lparr>clock := (\<lambda>n. clock w (Suc n))\<rparr>)"

definition us_per_day :: int where
  "us_per_day = 86400000000"

text \<open>\<open>timedelta(days=n)\<close>, and the \<open>days\<close> and \<open>seconds\<close> of a (normalised) timedelta.\<close>

definition timedelta_days :: "int \<Rightarrow> timedelta" where
  "timedelta_days n = n * us_per_day"

definition td_days :: "timedelta \<Rightarrow> int" where
  "td_days d = d div us_per_day"

definition td_seconds :: "timedelta \<Rightarrow> int" where
  "td_seconds d = (d mod us_per_day) div 1000000"

text \<open>\<open>dt.replace(hour=h, minute=m)\<close> keeps the date, the second and the microsecond.\<close>

definition replace_hm :: "datetime \<Rightarrow> int \<Rightarrow> int \<Rightarrow> datetime" where
  "replace_hm dt h m =
     (dt div us_per_day) * us_per_day + (h * 3600 + m * 60) * 1000000 + dt mod 60000000"

text \<open>
  \<open>strftime('%Y-%m-%d')\<close> prints the day of a datetime, here its day number;
  \<open>strftime('%H:%M:%S')\<close> prints hour, minute and second.
\<close>

definition date_of :: "datetime \<Rightarrow> int" where
  "date_of dt = dt div us_per_day"

definition hms_of :: "datetime \<Rightarrow> int \<times> int \<times> int" where
  "hms_of dt = (let s = (dt mod us_per_day) div 1000000 in (s div 3600, (s div 60) mod 60, s mod 60))"

section \<open>Field synthesizers\<close>

text \<open>
  A name is a surname of \<open>LAST_NAMES\<close> (20 entries) followed by a given name of
  \<open>FIRST_NAMES\<close> (28 entries); it is represented by the two positions drawn.
\<close>

type_synonym name = "nat \<times> nat"

definition generate_name :: "world \<Rightarrow> name \<times> world" where
  "generate_name w = (let (i, w1) = randbelow 20 w; (j, w2) = randbelow 28 w1 in ((i, j), w2))"

fun str_nat :: "nat \<Rightarrow> string" where
  "str_nat n = (if n < 10 then [''0123456789'' ! n]
                else str_nat (n div 10) @ [''0123456789'' ! (n mod 10)])"

declare str_nat.simps [simp del]

definition zfill :: "nat \<Rightarrow> string \<Rightarrow> string" where
  "zfill k s = replicate (k - length s) CHR ''0'' @ s"

definition emp_id :: "int \<Rightarrow> string" where
  "emp_id n = ''EMP'' @ zfill 4 (str_nat (nat n))"

definition random_date :: "datetime \<Rightarrow> datetime \<Rightarrow> world \<Rightarrow> error + datetime \<times> world" where
  "random_date start_date end_date w =
     (let time_between = end_date - start_date;
          days_between = td_days time_between
      in case randrange days_between w of
           Inl e \<Rightarrow> Inl e
         | Inr (random_days, w') \<Rightarrow> Inr (start_date + timedelta_days random_days, w'))"

section \<open>Attendance\<close>

text \<open>
  The status strings of the attendance table, in the order late, early leave, normal,
  on leave; the check-in places (headquarters, branch, customer site), the check-in
  sources (DingTalk, manual entry) and the remarks (traffic jam, ad-hoc meeting,
  out on business, or the empty string).
\<close>

datatype status = Late | EarlyLeave | Normal | OnLeave

datatype place = Headquarters | Branch | CustomerSite

datatype source = DingTalk | ManualEntry

datatype remark = NoRemark | TrafficJam | AdHocMeeting | OutOnBusiness

record attendance =
  att_emp :: string
  att_name :: name
  att_date :: int
  att_check_in :: "int \<times> int \<times> int"
  att_check_out :: "int \<times> int \<times> int"
  att_work_hours :: float
  att_status :: status
  att_late_minutes :: int
  att_early_minutes :: int
  att_place :: place
  att_source :: source
  att_remark :: remark

definition attendance_record :: "world \<Rightarrow> attendance \<times> world" where
  "attendance_record w0 =
     (let (now, w1) = datetime_now w0;
          (back, w2) = randint 1 30 w1;
          attendance_date = now - timedelta_days back;
          (drawn_minute, w3) = randint 0 60 w2;
          check_in_hour = (if drawn_minute > 30 then 9 else 8);
          check_in_minute = (if drawn_minute > 30 then drawn_minute - 30 else drawn_minute);
          check_in_time = replace_hm attendance_date check_in_hour check_in_minute;
          (check_out_hour, w4) = randint 17 18 w3;
          (check_out_minute, w5) =
             (if check_out_hour = 17 then randint 30 59 w4 else randint 0 59 w4);
          check_out_time = replace_hm attendance_date check_out_hour check_out_minute;
          work_hours = py_round (int_truediv (td_seconds (check_out_time - check_in_time)) 3600) 2;
          (status, w6) =
             (if check_in_minute > 30 \<and> check_in_hour = 9 then (Late, w5)
              else if check_out_hour < 18 then (EarlyLeave, w5)
              else choice [Normal, Normal, Normal, Normal, OnLeave] w5);
          (emp, w7) = randint 1 20 w6;
          (nm, w8) = generate_name w7;
          (plc, w9) = choice [Headquarters, Branch, CustomerSite] w8;
          (src, w10) = choice [DingTalk, DingTalk, DingTalk, ManualEntry] w9;
          (rmk, w11) =
             (if status = Normal then (NoRemark, w10)
              else choice [TrafficJam, AdHocMeeting, OutOnBusiness, NoRemark] w10)
      in (\<lparr>att_emp = emp_id emp,
           att_name = nm,
           att_date = date_of attendance_date,
           att_check_in = hms_of check_in_time,
           att_check_out = hms_of check_out_time,
           att_work_hours = work_hours,
           att_status = status,
           att_late_minutes = (if check_in_hour = 9 then max 0 (check_in_minute - 30) else 0),
           att_early_minutes = max 0 (18 * 60 - (check_out_hour * 60 + check_out_minute)),
           att_place = plc,
           att_source = src,
           att_remark = rmk\<rparr>, w11))"

fun attendance_loop :: "nat \<Rightarrow> world \<Rightarrow> attendance list \<times> world" where
  "attendance_loop 0 w = ([], w)"
| "attendance_loop (Suc n) w =
     (let (r, w') = attendance_record w; (rs, w'') = attendance_loop n w' in (r # rs, w''))"

definition generate_attendance :: "int \<Rightarrow> world \<Rightarrow> attendance list \<times> world" where
  "generate_attendance count w = attendance_loop (nat count) w"

section \<open>Leave balances\<close>

text \<open>
  A decimal literal of the script denotes the float nearest to it: \<open>0.6\<close> is
  \<open>fl (6 / 10)\<close>. An \<open>int\<close> operand of a float operation is converted exactly.
  The constant column holding the state string is left out.
\<close>

record leave =
  lv_emp :: string
  lv_name :: name
  lv_year :: int
  lv_total :: int
  lv_used :: float
  lv_remaining :: float
  lv_annual :: float
  lv_sick :: float
  lv_personal :: float
  lv_comp :: int
  lv_comp_used :: int
  lv_seniority :: int

definition leave_record :: "nat \<Rightarrow> world \<Rightarrow> leave \<times> world" where
  "leave_record i w0 =
     (let (total_days, w1) = choice [5, 7, 10, 12, 15] w0;
          (u, w2) = uniform 0 total_days w1;
          used_days = py_round u 1;
          (nm, w3) = generate_name w2;
          (comp, w4) = randint 0 3 w3;
          (comp_used, w5) = randint 0 2 w4;
          (seniority, w6) = randint 1 10 w5
      in (\<lparr>lv_emp = emp_id (int i + 1),
           lv_name = nm,
           lv_year = 2024,
           lv_total = total_days,
           lv_used = used_days,
           lv_remaining = py_round (fsub (of_int total_days) used_days) 1,
           lv_annual = py_round (fmul used_days (fl (6 / 10))) 1,
           lv_sick = py_round (fmul used_days (fl (2 / 10))) 1,
           lv_personal = py_round (fmul used_days (fl (2 / 10))) 1,
           lv_comp = comp,
           lv_comp_used = comp_used,
           lv_seniority = seniority\<rparr>, w6))"

fun leaves_loop :: "nat \<Rightarrow> nat \<Rightarrow> world \<Rightarrow> leave list \<times> world" where
  "leaves_loop i 0 w = ([], w)"
| "leaves_loop i (Suc n) w =
     (let (r, w') = leave_record i w; (rs, w'') = leaves_loop (Suc i) n w' in (r # rs, w''))"

definition generate_annual_leaves :: "int \<Rightarrow> world \<Rightarrow> leave list \<times> world" where
  "generate_annual_leaves count w = leaves_loop 0 (nat count) w"

section \<open>Social security contributions\<close>

datatype payment_state = Paid | Pending

record contribution =
  ss_emp :: string
  ss_name :: name
  ss_month :: int
  ss_base :: int
  ss_pension_company :: float
  ss_pension_personal :: float
  ss_medical_company :: float
  ss_medical_personal :: float
  ss_unemployment_company :: float
  ss_unemployment_personal :: float
  ss_injury_company :: float
  ss_maternity_company :: float
  ss_housing_fund_company :: float
  ss_housing_fund_personal :: float
  ss_total_company :: float
  ss_total_personal :: float
  ss_total :: float
  ss_state :: payment_state

text \<open>
  The month column prints year and month of a day up to 180 days before the clock
  reading; it is represented by that day.
\<close>

definition contribution_record :: "nat \<Rightarrow> world \<Rightarrow> contribution \<times> world" where
  "contribution_record i w0 =
     (let (base_amount, w1) = choice [5000, 6000, 8000, 10000, 12000, 15000, 20000] w0;
          pension_company = py_round (fmul (of_int base_amount) (fl (16 / 100))) 2;
          pension_personal = py_round (fmul (of_int base_amount) (fl (8 / 100))) 2;
          medical_company = py_round (fmul (of_int base_amount) (fl (10 / 100))) 2;
          medical_personal = py_round (fmul (of_int base_amount) (fl (2 / 100))) 2;
          unemployment_company = py_round (fmul (of_int base_amount) (fl (7 / 1000))) 2;
          unemployment_personal = py_round (fmul (of_int base_amount) (fl (3 / 1000))) 2;
          injury_company = py_round (fmul (of_int base_amount) (fl (5 / 1000))) 2;
          maternity_company = py_round (fmul (of_int base_amount) (fl (8 / 1000))) 2;
          housing_fund_company = py_round (fmul (of_int base_amount) (fl (12 / 100))) 2;
          housing_fund_personal = py_round (fmul (of_int base_amount) (fl (12 / 100))) 2;
          total_company =
            fadd (fadd (fadd (fadd (fadd pension_company medical_company) unemployment_company)
              injury_company) maternity_company) housing_fund_company;
          total_personal =
            fadd (fadd (fadd pension_personal medical_personal) unemployment_personal)
              housing_fund_personal;
          (nm, w2) = generate_name w1;
          (now, w3) = datetime_now w2;
          (back, w4) = randint 0 180 w3;
          (st, w5) = choice [Paid, Paid, Pending] w4
      in (\<lparr>ss_emp = emp_id (int i + 1),
           ss_name = nm,
           ss_month = date_of (now - timedelta_days back),
           ss_base = base_amount,
           ss_pension_company = pension_company,
           ss_pension_personal = pension_personal,
           ss_medical_company = medical_company,
           ss_medical_personal = medical_personal,
           ss_unemployment_company = unemployment_company,
           ss_unemployment_personal = unemployment_personal,
           ss_injury_company = injury_company,
           ss_maternity_company = maternity_company,
           ss_housing_fund_company = housing_fund_company,
           ss_housing_fund_personal = housing_fund_personal,
           ss_total_company = py_round total_company 2,
           ss_total_personal = py_round total_personal 2,
           ss_total = py_round (fadd total_company total_personal) 2,
           ss_state = st\<rparr>, w5))"

fun contributions_loop :: "nat \<Rightarrow> nat \<Rightarrow> world \<Rightarrow> contribution list \<times> world" where
  "contributions_loop i 0 w = ([], w)"
| "contributions_loop i (Suc n) w =
     (let (r, w') = contribution_record i w; (rs, w'') = contributions_loop (Suc i) n w'
      in (r # rs, w''))"

definition generate_social_security :: "int \<Rightarrow> world \<Rightarrow> contribution list \<times> world" where
  "generate_social_security count w = contributions_loop 0 (nat count) w"

section \<open>Business trips\<close>

text \<open>
  The destination is a position in the list of ten cities. The reasons are customer
  visit, project rollout, technical training, business negotiation and conference; the
  approval states are waiting, approved and paid. The trip number prints year and month
  of a clock reading, represented by its day, and the 4-digit sequence number.
\<close>

datatype reason = CustomerVisit | ProjectRollout | TechnicalTraining | Negotiation | Conference

datatype approval = WaitingApproval | Approved | PaidOut

record trip =
  trip_no :: "int \<times> string"
  trip_emp :: string
  trip_name :: name
  trip_destination :: nat
  trip_reason :: reason
  trip_start :: int
  trip_end :: int
  trip_days :: int
  trip_daily_allowance :: int
  trip_accommodation :: int
  trip_transportation :: int
  trip_meal :: int
  trip_total :: int
  trip_approval :: approval
  trip_submitted :: int

definition trip_record :: "nat \<Rightarrow> world \<Rightarrow> error + trip \<times> world" where
  "trip_record i w0 =
     (let (now1, w1) = datetime_now w0;
          (now2, w2) = datetime_now w1
      in case random_date (now1 - timedelta_days 90) now2 w2 of
           Inl e \<Rightarrow> Inl e
         | Inr (start_date, w3) \<Rightarrow>
     (let (days, w4) = randint 1 7 w3;
          end_date = start_date + timedelta_days days;
          (daily_allowance, w5) = choice [200, 300, 400, 500] w4;
          (accommodation_rate, w6) = randint 200 800 w5;
          accommodation = accommodation_rate * days;
          (transportation, w7) = randint 500 2000 w6;
          (meal_rate, w8) = randint 100 300 w7;
          meal = meal_rate * days;
          total = daily_allowance * days + accommodation + transportation + meal;
          (now3, w9) = datetime_now w8;
          (emp, w10) = randint 1 20 w9;
          (nm, w11) = generate_name w10;
          (dest, w12) = randbelow 10 w11;
          (rsn, w13) =
            choice [CustomerVisit, ProjectRollout, TechnicalTraining, Negotiation, Conference] w12;
          (apv, w14) = choice [WaitingApproval, Approved, Approved, PaidOut] w13
      in Inr (\<lparr>trip_no = (date_of now3, zfill 4 (str_nat (i + 1))),
           trip_emp = emp_id emp,
           trip_name = nm,
           trip_destination = dest,
           trip_reason = rsn,
           trip_start = date_of start_date,
           trip_end = date_of end_date,
           trip_days = days,
           trip_daily_allowance = daily_allowance,
           trip_accommodation = accommodation,
           trip_transportation = transportation,
           trip_meal = meal,
           trip_total = total,
           trip_approval = apv,
           trip_submitted = date_of start_date\<rparr>, w14)))"

fun trips_loop :: "nat \<Rightarrow> nat \<Rightarrow> world \<Rightarrow> error + trip list \<times> world" where
  "trips_loop i 0 w = Inr ([], w)"
| "trips_loop i (Suc n) w =
     (case trip_record i w of
        Inl e \<Rightarrow> Inl e
      | Inr (t, w') \<Rightarrow>
          (case trips_loop (Suc i) n w' of
             Inl e \<Rightarrow> Inl e
           | Inr (ts, w'') \<Rightarrow> Inr (t # ts, w'')))"

definition generate_business_trips :: "int \<Rightarrow> world \<Rightarrow> error + trip list \<times> world" where
  "generate_business_trips count w = trips_loop 0 (nat count) w"

section \<open>Meal records\<close>

text \<open>
  The canteens are the ground floor and the first floor of the headquarters and the
  branch canteen; the payments are meal card, mobile payment and cash.
\<close>

datatype meal_type = Breakfast | Lunch | Dinner

datatype canteen = GroundFloor | FirstFloor | BranchCanteen

datatype payment = MealCard | MobilePayment | Cash

fun meal_types :: "meal_type \<Rightarrow> int \<times> int" where
  "meal_types Breakfast = (5, 15)"
| "meal_types Lunch = (15, 30)"
| "meal_types Dinner = (15, 35)"

record meal_rec =
  meal_emp :: string
  meal_name :: name
  meal_date :: int
  meal_kind :: meal_type
  meal_canteen :: canteen
  meal_original :: float
  meal_subsidy :: float
  meal_actual :: float
  meal_payment :: payment
  meal_rating :: int

definition meal_record :: "world \<Rightarrow> meal_rec \<times> world" where
  "meal_record w0 =
     (let (meal_type, w1) = choice [Breakfast, Lunch, Dinner] w0;
          price_range = meal_types meal_type;
          (u, w2) = uniform (fst price_range) (snd price_range) w1;
          original_amount = py_round u 2;
          (fraction, w3) = choice [fl (5 / 10), fl (6 / 10), fl (8 / 10)] w2;
          subsidy = py_round (fmul original_amount fraction) 2;
          actual_amount = py_round (fsub original_amount subsidy) 2;
          (emp, w4) = randint 1 20 w3;
          (nm, w5) = generate_name w4;
          (now, w6) = datetime_now w5;
          (back, w7) = randint 1 30 w6;
          (cnt, w8) = choice [GroundFloor, FirstFloor, BranchCanteen] w7;
          (pay, w9) = choice [MealCard, MealCard, MobilePayment, Cash] w8;
          (rating, w10) = randint 3 5 w9
      in (\<lparr>meal_emp = emp_id emp,
           meal_name = nm,
           meal_date = date_of (now - timedelta_days back),
           meal_kind = meal_type,
           meal_canteen = cnt,
           meal_original = original_amount,
           meal_subsidy = subsidy,
           meal_actual = actual_amount,
           meal_payment = pay,
           meal_rating = rating\<rparr>, w10))"

fun meals_loop :: "nat \<Rightarrow> world \<Rightarrow> meal_rec list \<times> world" where
  "meals_loop 0 w = ([], w)"
| "meals_loop (Suc n) w =
     (let (r, w') = meal_record w; (rs, w'') = meals_loop n w' in (r # rs, w''))"

definition generate_meal_records :: "int \<Rightarrow> world \<Rightarrow> meal_rec list \<times> world" where
  "generate_meal_records count w = meals_loop (nat count) w"

section \<open>Example worlds\<close>

text \<open>
  Draws: one day back, minute draw 45 (check-in at 9:15), check-out hour 18, minute 0,
  status draw 4 (on leave); the clock reads 2024-11-01 10:00:00.
\<close>

definition world_9_15 :: world where
  "world_9_15 = \<lparr>draws = [0, 45, 1, 0, 4], clock = (\<lambda>_. 63866052000000000)\<rparr>"

text \<open>
  Draws: start 10 days into the 90-day range, 3 days, daily allowance 300, accommodation
  rate 500, transportation 1200, meal rate 150.
\<close>

definition world_trip :: world where
  "world_trip = \<lparr>draws = [10, 2, 1, 300, 700, 50], clock = (\<lambda>_. 63866052000000000)\<rparr>"

text \<open>The base amount drawn is the fourth of the list, 10000.\<close>

definition world_base_10000 :: world where
  "world_base_10000 = \<lparr>draws = [3], clock = (\<lambda>_. 63866052000000000)\<rparr>"

text \<open>
  Draws: lunch, the random float 1/2 (a price of 22.50) and the discount fraction 0.8.
\<close>

definition world_lunch :: world where
  "world_lunch = \<lparr>draws = [1, 4503599627370496, 2], clock = (\<lambda>_. 63866052000000000)\<rparr>"

text \<open>
  Draws: 5 days in total and the random float 1/32, so 0.15625 days, rounded to 0.2.
\<close>

definition world_leave :: world where
  "world_leave = \<lparr>draws = [0, 281474976710656], clock = (\<lambda>_. 63866052000000000)\<rparr>"

text \<open>The draws of \<open>world_9_15\<close>, with the clock one day later.\<close>

definition world_next_day :: world where
  "world_next_day = \<lparr>draws = [0, 45, 1, 0, 4], clock = (\<lambda>_. 63866138400000000)\<rparr>"


section \<open>Facts about the random source and the clock\<close>

lemma randint_range:
  assumes "a \<le> b"
  shows "a \<le> fst (randint a b w) \<and> fst (randint a b w) \<le> b"
proof -
  have "0 < nat (b - a + 1)" using assms by simp
  then have "fst (next_draw w) mod nat (b - a + 1) < nat (b - a + 1)"
    by (rule mod_less_divisor)
  then show ?thesis
    by (simp add: randint_def randbelow_def split_beta)
qed

lemma choice_mem: "xs \<noteq> [] \<Longrightarrow> fst (choice xs w) \<in> set xs"
  by (simp add: choice_def randbelow_def split_beta)

lemma hms_of_replace_hm:
  assumes "0 \<le> h" "h < 24" "0 \<le> m" "m < 60"
  shows "hms_of (replace_hm dt h m) = (h, m, (dt mod 60000000) div 1000000)"
proof -
  define r where "r = dt mod 60000000"
  define q where "q = r div 1000000"
  define t where "t = (h * 3600 + m * 60) * 1000000 + r"
  have r: "0 \<le> r" "r < 60000000" by (simp_all add: r_def)
  have q: "0 \<le> q" "q < 60" using r by (simp_all add: q_def)
  have t: "0 \<le> t" "t < 86400000000" using assms r by (auto simp: t_def)
  have "replace_hm dt h m = t + (dt div 86400000000) * 86400000000"
    by (simp add: replace_hm_def us_per_day_def t_def r_def)
  then have 1: "replace_hm dt h m mod us_per_day = t"
    using t by (simp add: us_per_day_def)
  have 2: "t div 1000000 = h * 3600 + m * 60 + q"
    by (simp add: t_def q_def)
  have mq: "0 \<le> m * 60 + q" "m * 60 + q < 3600" using assms q by auto
  have "(m * 60 + q + h * 3600) div 3600 = (m * 60 + q) div 3600 + h"
    by simp
  then have 3: "(h * 3600 + m * 60 + q) div 3600 = h"
    using mq by (simp add: add.commute add.left_commute)
  have "(q + (h * 60 + m) * 60) div 60 = q div 60 + (h * 60 + m)"
    by simp
  then have "(h * 3600 + m * 60 + q) div 60 = h * 60 + m"
    using q by (simp add: algebra_simps)
  moreover have "(m + h * 60) mod 60 = m mod 60"
    by simp
  ultimately have 4: "(h * 3600 + m * 60 + q) div 60 mod 60 = m"
    using assms by (simp add: add.commute)
  have "(q + (h * 60 + m) * 60) mod 60 = q mod 60"
    by (rule mod_mult_self1)
  then have 5: "(h * 3600 + m * 60 + q) mod 60 = q"
    using q by (simp add: algebra_simps)
  show ?thesis
    by (simp add: hms_of_def Let_def 1 2 3 4 5) (simp add: q_def r_def)
qed

lemma choice_status: "fst (choice [Normal, Normal, Normal, Normal, OnLeave] w) \<in> {Normal, OnLeave}"
  using choice_mem[of "[Normal, Normal, Normal, Normal, OnLeave]" w] by auto

lemma choice_status_neq:
  "fst (choice [Normal, Normal, Normal, Normal, OnLeave] w) \<noteq> Late"
  "fst (choice [Normal, Normal, Normal, Normal, OnLeave] w) \<noteq> EarlyLeave"
  using choice_status[of w] by auto

lemma attendance_record_never_late:
  "att_status (fst (attendance_record w)) \<noteq> Late \<and> att_late_minutes (fst (attendance_record w)) = 0"
proof -
  define w2 where "w2 = snd (randint 1 30 (snd (datetime_now w)))"
  have m: "fst (randint 0 60 w2) \<le> 60" using randint_range[of 0 60 w2] by simp
  show ?thesis
    using m
    by (auto simp add: attendance_record_def Let_def split_beta w2_def[symmetric] choice_status_neq)
qed

lemma attendance_loop_all:
  assumes "\<And>w. P (fst (attendance_record w))"
  shows "\<forall>r \<in> set (fst (attendance_loop n w)). P r"
  using assms by (induction n arbitrary: w) (auto simp: split_beta Let_def)

lemma attendance_loop_length: "length (fst (attendance_loop n w)) = n"
  by (induction n arbitrary: w) (auto simp: split_beta Let_def)


lemma td_seconds_replace_hm:
  assumes "0 \<le> a" "a \<le> b" "b < 86400"
  shows "td_seconds ((d * us_per_day + b * 1000000 + r) - (d * us_per_day + a * 1000000 + r)) = b - a"
proof -
  have "0 \<le> (b - a) * 1000000" "(b - a) * 1000000 < us_per_day"
    using assms by (auto simp: us_per_day_def)
  then have "((b - a) * 1000000) mod us_per_day = (b - a) * 1000000"
    by simp
  then show ?thesis by (simp add: td_seconds_def algebra_simps)
qed

lemma attendance_record_shape:
  obtains ih im oh om s c where
    "att_check_in (fst (attendance_record w)) = (ih, im, s)"
    "att_check_out (fst (attendance_record w)) = (oh, om, s)"
    "ih = 8 \<and> 0 \<le> im \<and> im \<le> 30 \<or> ih = 9 \<and> 1 \<le> im \<and> im \<le> 30"
    "oh = 17 \<and> 30 \<le> om \<and> om \<le> 59 \<or> oh = 18 \<and> 0 \<le> om \<and> om \<le> 59"
    "0 \<le> s" "s < 60"
    "att_status (fst (attendance_record w)) =
       (if 30 < im \<and> ih = 9 then Late else if oh < 18 then EarlyLeave else c)"
    "c = Normal \<or> c = OnLeave"
    "att_late_minutes (fst (attendance_record w)) = (if ih = 9 then max 0 (im - 30) else 0)"
    "att_early_minutes (fst (attendance_record w)) = max 0 (18 * 60 - (oh * 60 + om))"
    "att_work_hours (fst (attendance_record w)) =
       py_round (int_truediv ((oh * 3600 + om * 60) - (ih * 3600 + im * 60)) 3600) 2"
proof -
  define w1 where "w1 = snd (datetime_now w)"
  define w2 where "w2 = snd (randint 1 30 w1)"
  define dm where "dm = fst (randint 0 60 w2)"
  define w3 where "w3 = snd (randint 0 60 w2)"
  define oh where "oh = fst (randint 17 18 w3)"
  define w4 where "w4 = snd (randint 17 18 w3)"
  define om where "om = fst (if oh = 17 then randint 30 59 w4 else randint 0 59 w4)"
  define w5 where "w5 = snd (if oh = 17 then randint 30 59 w4 else randint 0 59 w4)"
  define c where "c = fst (choice [Normal, Normal, Normal, Normal, OnLeave] w5)"
  define ih :: int where "ih = (if dm > 30 then 9 else 8)"
  define im where "im = (if dm > 30 then dm - 30 else dm)"
  define ad where "ad = fst (datetime_now w) - timedelta_days (fst (randint 1 30 w1))"
  define s where "s = (ad mod 60000000) div 1000000"
  have dm: "0 \<le> dm" "dm \<le> 60" using randint_range[of 0 60 w2] by (simp_all add: dm_def)
  have oh: "oh = 17 \<or> oh = 18" using randint_range[of 17 18 w3] by (auto simp: oh_def)
  have om: "oh = 17 \<longrightarrow> 30 \<le> om" "0 \<le> om" "om \<le> 59"
    using randint_range[of 30 59 w4] randint_range[of 0 59 w4] by (auto simp: om_def)
  have i: "ih = 8 \<and> 0 \<le> im \<and> im \<le> 30 \<or> ih = 9 \<and> 1 \<le> im \<and> im \<le> 30"
    using dm by (auto simp: ih_def im_def)
  have hin: "hms_of (replace_hm ad ih im) = (ih, im, s)"
    unfolding s_def using i by (intro hms_of_replace_hm) auto
  have hout: "hms_of (replace_hm ad oh om) = (oh, om, s)"
    unfolding s_def using oh om by (intro hms_of_replace_hm) auto
  have secs: "td_seconds (replace_hm ad oh om - replace_hm ad ih im)
      = (oh * 3600 + om * 60) - (ih * 3600 + im * 60)"
    unfolding replace_hm_def using i oh om
    by (intro td_seconds_replace_hm) auto
  have rec: "fst (attendance_record w) = 
     \<lparr>att_emp = att_emp (fst (attendance_record w)),
           att_name = att_name (fst (attendance_record w)),
           att_date = date_of ad,
           att_check_in = hms_of (replace_hm ad ih im),
           att_check_out = hms_of (replace_hm ad oh om),
           att_work_hours = py_round (int_truediv (td_seconds (replace_hm ad oh om - replace_hm ad ih im)) 3600) 2,
           att_status = (if 30 < im \<and> ih = 9 then Late else if oh < 18 then EarlyLeave else c),
           att_late_minutes = (if ih = 9 then max 0 (im - 30) else 0),
           att_early_minutes = max 0 (18 * 60 - (oh * 60 + om)),
           att_place = att_place (fst (attendance_record w)),
           att_source = att_source (fst (attendance_record w)),
           att_remark = att_remark (fst (attendance_record w))\<rparr>"
    by (simp add: attendance_record_def Let_def split_beta w1_def w2_def w3_def w4_def dm_def oh_def om_def
        ih_def im_def ad_def w5_def c_def)
  have c: "c = Normal \<or> c = OnLeave"
    using choice_status[of w5] by (simp add: c_def)
  have f: "att_check_in (fst (attendance_record w)) = (ih, im, s)"
    "att_check_out (fst (attendance_record w)) = (oh, om, s)"
    "att_status (fst (attendance_record w)) =
       (if 30 < im \<and> ih = 9 then Late else if oh < 18 then EarlyLeave else c)"
    "att_late_minutes (fst (attendance_record w)) = (if ih = 9 then max 0 (im - 30) else 0)"
    "att_early_minutes (fst (attendance_record w)) = max 0 (18 * 60 - (oh * 60 + om))"
    "att_work_hours (fst (attendance_record w)) =
       py_round (int_truediv ((oh * 3600 + om * 60) - (ih * 3600 + im * 60)) 3600) 2"
    by (subst rec, simp add: hin hout secs)+
  have o: "oh = 17 \<and> 30 \<le> om \<and> om \<le> 59 \<or> oh = 18 \<and> 0 \<le> om \<and> om \<le> 59"
    using oh om by auto
  have s: "0 \<le> s" "s < 60" by (simp_all add: s_def)
  show ?thesis
    by (rule that[OF f(1) f(2) i o s f(3) c f(4) f(5) f(6)])
qed

section \<open>Facts about float rounding\<close>

lemma rhe_cases: "rhe x = \<lfloor>x\<rfloor> \<or> rhe x = \<lfloor>x\<rfloor> + 1"
  by (simp add: rhe_def Let_def)

lemma rhe_error: "\<bar>of_int (rhe x) - x\<bar> \<le> 1 / 2"
proof -
  have "of_int \<lfloor>x\<rfloor> \<le> x" "x < of_int \<lfloor>x\<rfloor> + 1" by linarith+
  then show ?thesis
    by (auto simp add: rhe_def Let_def abs_le_iff)
qed

lemma rhe_near:
  assumes "\<bar>x - of_int n\<bar> < 1 / 2"
  shows "rhe x = n"
proof -
  have "\<bar>of_int (rhe x) - x\<bar> \<le> 1 / 2" by (rule rhe_error)
  with assms have "\<bar>(of_int (rhe x) :: rat) - of_int n\<bar> < 1" by linarith
  then have "\<bar>(of_int (rhe x - n) :: rat)\<bar> < 1" by simp
  then have "\<bar>rhe x - n\<bar> < 1"
    by (metis of_int_abs of_int_less_1_iff)
  then show ?thesis by linarith
qed

lemma rhe_of_int [simp]: "rhe (of_int n) = n"
  by (rule rhe_near) simp

lemma rhe_nonneg: "0 \<le> x \<Longrightarrow> 0 \<le> rhe x"
  using rhe_cases[of x] by (auto simp: zero_le_floor)

lemma fl_nonneg: "0 \<le> x \<Longrightarrow> 0 \<le> fl x"
  by (auto simp add: fl_def Let_def intro!: mult_nonneg_nonneg rhe_nonneg)

lemma py_round_nonneg: "0 \<le> x \<Longrightarrow> 0 \<le> py_round x n"
  unfolding py_round_def by (intro fl_nonneg divide_nonneg_nonneg) (auto intro!: rhe_nonneg)

lemma flog2_bounds:
  assumes "0 < x"
  shows "2 powi flog2 x \<le> x" and "x < 2 powi (flog2 x + 1)"
proof -
  have "2 powi flog2 x \<le> x \<and> x < 2 powi (flog2 x + 1)"
  proof (cases "1 \<le> x")
    case True
    define n where "n = \<lfloor>x\<rfloor>"
    have n: "0 < n" using True unfolding n_def by linarith
    have b: "1 \<le> bitlen n" using n bitlen_eq_zero_iff[of n] bitlen_nonneg[of n] by linarith
    have f: "flog2 x = bitlen n - 1" using True by (simp add: flog2_def n_def)
    from bitlen_bounds[OF n] have 1: "2 ^ nat (bitlen n - 1) \<le> n" and 2: "n + 1 \<le> 2 ^ nat (bitlen n)"
      by simp_all
    have "(2::rat) ^ nat (bitlen n - 1) = of_int (2 ^ nat (bitlen n - 1))" by simp
    also have "\<dots> \<le> of_int n" using 1 by (simp only: of_int_le_iff)
    also have "\<dots> \<le> x" unfolding n_def by linarith
    finally have lo: "(2::rat) ^ nat (bitlen n - 1) \<le> x" .
    have "x < of_int (n + 1)" unfolding n_def by linarith
    also have "\<dots> \<le> of_int (2 ^ nat (bitlen n))" using 2 by (simp only: of_int_le_iff)
    also have "\<dots> = (2::rat) ^ nat (bitlen n)" by simp
    finally have hi: "x < (2::rat) ^ nat (bitlen n)" .
    show ?thesis using lo hi b by (simp add: f power_int_def)
  next
    case False
    define k where "k = \<lceil>1 / x\<rceil> - 1"
    have y: "1 < 1 / x" using False assms by simp
    have k: "0 < k" using y unfolding k_def by linarith
    have b: "1 \<le> bitlen k" using k bitlen_eq_zero_iff[of k] bitlen_nonneg[of k] by linarith
    have f: "flog2 x = - bitlen k" using False by (simp add: flog2_def k_def)
    from bitlen_bounds[OF k] have 1: "2 ^ nat (bitlen k - 1) \<le> k" and 2: "k + 1 \<le> 2 ^ nat (bitlen k)"
      by simp_all
    have "(2::rat) ^ nat (bitlen k - 1) = of_int (2 ^ nat (bitlen k - 1))" by simp
    also have "\<dots> \<le> of_int k" using 1 by (simp only: of_int_le_iff)
    also have "\<dots> < 1 / x" unfolding k_def by linarith
    finally have lo: "(2::rat) ^ nat (bitlen k - 1) < 1 / x" .
    have "1 / x \<le> of_int (k + 1)" unfolding k_def by linarith
    also have "\<dots> \<le> of_int (2 ^ nat (bitlen k))" using 2 by (simp only: of_int_le_iff)
    also have "\<dots> = (2::rat) ^ nat (bitlen k)" by simp
    finally have hi: "1 / x \<le> (2::rat) ^ nat (bitlen k)" .
    have A: "1 / 2 ^ nat (bitlen k) \<le> x"
      using hi assms by (simp add: field_simps)
    have B: "x < 1 / 2 ^ nat (bitlen k - 1)"
      using lo assms by (simp add: field_simps)
    have e1: "(2::rat) powi (- bitlen k) = 1 / 2 ^ nat (bitlen k)"
      using b by (simp add: power_int_def field_simps)
    have e2: "(2::rat) powi (- bitlen k + 1) = 1 / 2 ^ nat (bitlen k - 1)"
      using b by (simp add: power_int_def field_simps nat_diff_distrib)
    show ?thesis using A B by (simp only: f e1 e2 simp_thms)
  qed
  then show "2 powi flog2 x \<le> x" and "x < 2 powi (flog2 x + 1)" by simp_all
qed

lemma fl_error:
  assumes "2 powi (- 1022) \<le> B" and "\<bar>x\<bar> \<le> B"
  shows "\<bar>fl x - x\<bar> \<le> B / 2 ^ 53"
proof (cases "x = 0")
  case True
  have "(0::rat) < 2 powi (- 1022)" by simp
  with assms(1) have "0 \<le> B" by linarith
  with True show ?thesis by (simp add: fl_def)
next
  case False
  define a where "a = \<bar>x\<bar>"
  define e where "e = max (flog2 a - 52) (- 1074)"
  define p :: rat where "p = 2 powi e"
  have a: "0 < a" using False by (simp add: a_def)
  have p: "0 < p" by (simp add: p_def)
  have flx: "fl x = sgn x * of_int (rhe (a / p)) * p"
    using False by (simp add: fl_def Let_def a_def e_def p_def)
  have x: "x = sgn x * (a / p) * p" using p by (simp add: a_def sgn_mult_abs)
  have "fl x - x = sgn x * (of_int (rhe (a / p)) - a / p) * p"
    by (subst flx, subst (2) x) (simp add: algebra_simps)
  then have "\<bar>fl x - x\<bar> = \<bar>of_int (rhe (a / p)) - a / p\<bar> * p"
    using False p by (simp add: abs_mult abs_sgn_eq)
  also have "\<dots> \<le> (1 / 2) * p"
    using rhe_error[of "a / p"] p by (intro mult_right_mono) auto
  finally have 1: "\<bar>fl x - x\<bar> \<le> p / 2" by simp
  have "p \<le> B / 2 ^ 52"
  proof (cases "flog2 a - 52 \<le> - 1074")
    case True
    then have "e = - 1074" by (simp add: e_def)
    then have "p = 2 powi (- 1022 - 52)" by (simp add: p_def)
    also have "\<dots> = 2 powi (- 1022) / 2 powi 52" by (rule power_int_diff) simp
    also have "\<dots> = 2 powi (- 1022) / 2 ^ 52" by simp
    also have "\<dots> \<le> B / 2 ^ 52" using assms(1) by (intro divide_right_mono) auto
    finally show ?thesis .
  next
    case False
    then have "e = flog2 a - 52" by (simp add: e_def)
    then have "p = 2 powi flog2 a / 2 ^ 52"
      by (simp add: p_def power_int_diff)
    also have "\<dots> \<le> a / 2 ^ 52" using flog2_bounds(1)[OF a] by (intro divide_right_mono) auto
    also have "\<dots> \<le> B / 2 ^ 52" using assms(2) by (intro divide_right_mono) (auto simp: a_def)
    finally show ?thesis .
  qed
  with 1 show ?thesis by simp
qed

lemma fl_of_int:
  assumes "\<bar>n\<bar> \<le> 2 ^ 53"
  shows "fl (of_int n) = of_int n"
proof (cases "n = 0")
  case True
  then show ?thesis by (simp add: fl_def)
next
  case False
  define a :: rat where "a = \<bar>of_int n\<bar>"
  define e where "e = max (flog2 a - 52) (- 1074)"
  have a: "0 < a" "1 \<le> a" using False by (simp_all add: a_def)
  have a53: "a \<le> 2 ^ 53" using assms unfolding a_def
    by (metis of_int_abs of_int_le_numeral_power_cancel_iff)
  have "(2::rat) powi flog2 a \<le> 2 powi 53"
    using flog2_bounds(1)[OF a(1)] a53 by simp
  then have f53: "flog2 a \<le> 53"
    by (rule power_int_le_imp_le_exp[rotated]) simp_all
  have flx: "fl (of_int n) = sgn (of_int n) * of_int (rhe (a / 2 powi e)) * 2 powi e"
    using False by (simp add: fl_def Let_def a_def e_def)
  have "\<exists>k. a / 2 powi e = of_int k"
  proof (cases "e \<le> 0")
    case True
    then have "a / 2 powi e = a * 2 ^ nat (- e)"
      by (simp add: power_int_def field_simps)
    also have "\<dots> = of_int (\<bar>n\<bar> * 2 ^ nat (- e))" by (simp add: a_def)
    finally show ?thesis by blast
  next
    case False
    then have e1: "e = 1" and "flog2 a = 53" using f53 by (auto simp: e_def)
    then have "2 ^ 53 \<le> a" using flog2_bounds(1)[OF a(1)] by simp
    then have "a = 2 ^ 53" using a53 by simp
    then have "a / 2 powi e = of_int (2 ^ 52)" by (simp add: e1)
    then show ?thesis by blast
  qed
  then obtain k where k: "a / 2 powi e = of_int k" by blast
  then have "of_int (rhe (a / 2 powi e)) * 2 powi e = a"
    by (simp add: field_simps)
  then show ?thesis
    unfolding flx by (simp add: a_def mult.assoc sgn_mult_abs)
qed

lemma fl_error_small:
  assumes "1 / 2 ^ 60 \<le> B" and "\<bar>x\<bar> \<le> B"
  shows "\<bar>fl x - x\<bar> \<le> B / 2 ^ 53"
proof -
  have "(2::rat) powi (- 1022) \<le> 2 powi (- 60)"
    by (rule power_int_increasing) simp_all
  also have "\<dots> = 1 / 2 ^ 60" by (simp add: power_int_minus_divide)
  finally have "2 powi (- 1022) \<le> B" using assms(1) by simp
  then show ?thesis using assms(2) by (rule fl_error)
qed

lemma py_round_near:
  assumes "\<bar>x * 10 ^ n - of_int k\<bar> < 1 / 2"
  shows "py_round x n = fl (of_int k / 10 ^ n)"
  using rhe_near[OF assms] by (simp add: py_round_def)

lemma py_round2_near_int:
  assumes "\<bar>x - of_int N\<bar> < 1 / 200" and "\<bar>N\<bar> \<le> 2 ^ 53"
  shows "py_round x 2 = of_int N"
proof -
  have "\<bar>x * 10 ^ 2 - of_int (N * 100)\<bar> = \<bar>(x - of_int N) * 100\<bar>"
    by (simp add: algebra_simps)
  also have "\<dots> = \<bar>x - of_int N\<bar> * 100"
    unfolding abs_mult by simp
  also have "\<dots> < 1 / 2" using assms(1) by simp
  finally have "py_round x 2 = fl (of_int (N * 100) / 10 ^ 2)" by (rule py_round_near)
  also have "of_int (N * 100) / 10 ^ 2 = (of_int N :: rat)" by simp
  finally show ?thesis using fl_of_int[OF assms(2)] by simp
qed

lemma round2_fmul_lit:
  assumes "0 \<le> base" "base \<le> 20000" "0 \<le> q" "q \<le> 1 / 4" "of_int base * q = of_int N"
  shows "py_round (fmul (of_int base) (fl q)) 2 = of_int N"
proof -
  define b :: rat where "b = of_int base"
  have b: "0 \<le> b" "b \<le> 20000" using assms(1,2) by (simp_all add: b_def)
  have "\<bar>fl q - q\<bar> \<le> (1 / 4) / 2 ^ 53"
    using assms(3,4) by (intro fl_error_small) simp_all
  then have c: "\<bar>fl q - q\<bar> \<le> 1 / 2 ^ 55" by simp
  have "\<bar>b * fl q - b * q\<bar> = \<bar>b * (fl q - q)\<bar>"
    by (simp add: algebra_simps)
  also have "\<dots> = b * \<bar>fl q - q\<bar>"
    using b by (simp add: abs_mult)
  also have "\<dots> \<le> 20000 * (1 / 2 ^ 55)"
    using b c by (intro mult_mono) simp_all
  finally have x: "\<bar>b * fl q - b * q\<bar> \<le> 20000 / 2 ^ 55" by simp
  have bq: "0 \<le> b * q" "b * q \<le> 5000"
    using b assms(3,4) mult_mono[of b 20000 q "1 / 4"] by simp_all
  have x1: "\<bar>b * fl q - b * q\<bar> \<le> 1" using x by simp
  have "\<bar>b * fl q\<bar> \<le> 8192" using x1 bq by linarith
  then have "\<bar>fl (b * fl q) - b * fl q\<bar> \<le> 8192 / 2 ^ 53"
    by (intro fl_error_small) simp_all
  then have "\<bar>fl (b * fl q) - b * q\<bar> \<le> 8192 / 2 ^ 53 + 20000 / 2 ^ 55"
    using x by linarith
  also have "\<dots> < 1 / 200" by simp
  finally have near: "\<bar>fmul (of_int base) (fl q) - of_int N\<bar> < 1 / 200"
    by (simp add: fmul_def b_def assms(5))
  have "(of_int N :: rat) \<le> 5000" "(0 :: rat) \<le> of_int N"
    using bq by (simp_all add: b_def assms(5))
  then have "N \<le> 5000" "0 \<le> N" by simp_all
  then have "\<bar>N\<bar> \<le> 2 ^ 53" by simp
  with near show ?thesis by (rule py_round2_near_int)
qed

lemma fadd_of_int:
  assumes "\<bar>a + b\<bar> \<le> 2 ^ 53"
  shows "fadd (of_int a) (of_int b) = of_int (a + b)"
  using fl_of_int[OF assms] by (simp add: fadd_def)

lemma py_round_of_int:
  assumes "\<bar>N\<bar> \<le> 2 ^ 53"
  shows "py_round (of_int N) k = of_int N"
proof -
  have "(of_int N :: rat) * 10 ^ k = of_int (N * 10 ^ k)" by simp
  then have "rhe (of_int N * 10 ^ k) = N * 10 ^ k" by (simp only: rhe_of_int)
  then show ?thesis using fl_of_int[OF assms] by (simp add: py_round_def)
qed

lemma abs_diff_leD: "\<bar>a - b\<bar> \<le> e \<Longrightarrow> b - e \<le> a \<and> a \<le> b + (e::rat)"
  by linarith

lemma fl_error_64:
  assumes "\<bar>x\<bar> \<le> 64"
  shows "x - 1 / 2 ^ 47 \<le> fl x" and "fl x \<le> x + 1 / 2 ^ 47"
proof -
  have "\<bar>fl x - x\<bar> \<le> 64 / 2 ^ 53" using assms by (intro fl_error_small) simp_all
  then have "\<bar>fl x - x\<bar> \<le> 1 / 2 ^ 47" by simp
  from abs_diff_leD[OF this] show "x - 1 / 2 ^ 47 \<le> fl x" and "fl x \<le> x + 1 / 2 ^ 47"
    by simp_all
qed

lemma fl_error_1:
  assumes "\<bar>x\<bar> \<le> 1"
  shows "x - 1 / 2 ^ 53 \<le> fl x" and "fl x \<le> x + 1 / 2 ^ 53"
proof -
  have "\<bar>fl x - x\<bar> \<le> 1 / 2 ^ 53" using assms by (intro fl_error_small) simp_all
  from abs_diff_leD[OF this] show "x - 1 / 2 ^ 53 \<le> fl x" and "fl x \<le> x + 1 / 2 ^ 53"
    by simp_all
qed

lemma rhe_bounds: "x - 1 / 2 \<le> of_int (rhe x)" "of_int (rhe x) \<le> x + 1 / 2"
  using abs_diff_leD[OF rhe_error[of x]] by simp_all

lemma random_range: "0 \<le> fst (random w) \<and> fst (random w) < 1"
proof -
  have "fst (next_draw w) mod 2 ^ 53 < 2 ^ 53" by simp
  then have "(of_nat (fst (next_draw w) mod 2 ^ 53) :: rat) < of_nat (2 ^ 53)"
    by (simp only: of_nat_less_iff)
  then show ?thesis
    by (simp add: random_def randbelow_def split_beta)
qed

lemma uniform_range:
  assumes "0 \<le> lo" "lo \<le> hi" "hi \<le> 35"
  shows "of_int lo - 1 / 2 ^ 46 \<le> fst (uniform lo hi w)"
    and "fst (uniform lo hi w) \<le> of_int hi + 1 / 2 ^ 46"
    and "0 \<le> fst (uniform lo hi w)"
proof -
  define r where "r = fst (random w)"
  define d :: rat where "d = of_int (hi - lo)"
  define l :: rat where "l = of_int lo"
  define t where "t = fl (d * r)"
  have r: "0 \<le> r" "r < 1" using random_range[of w] by (simp_all add: r_def)
  have d: "0 \<le> d" "d \<le> 35" using assms by (simp_all add: d_def)
  have l: "0 \<le> l" "l + d \<le> 35" using assms by (simp_all add: l_def d_def)
  have dr: "0 \<le> d * r" "d * r \<le> d"
    using r d by (simp_all add: mult_left_le)
  have t0: "0 \<le> t" unfolding t_def using dr by (intro fl_nonneg)
  have "t \<le> d * r + 1 / 2 ^ 47"
    unfolding t_def using dr d by (intro fl_error_64) simp
  then have t1: "t \<le> d + 1 / 2 ^ 47" using dr by simp
  have u: "fst (uniform lo hi w) = fl (l + t)"
    by (simp add: uniform_def split_beta fadd_def fmul_def l_def t_def d_def r_def)
  have "\<bar>l + t\<bar> \<le> 64" using t0 t1 l by simp
  then have e: "l + t - 1 / 2 ^ 47 \<le> fl (l + t)" "fl (l + t) \<le> l + t + 1 / 2 ^ 47"
    by (rule fl_error_64)+
  show "of_int lo - 1 / 2 ^ 46 \<le> fst (uniform lo hi w)"
    unfolding u l_def[symmetric] using e t0 by simp
  have "fl (l + t) \<le> l + d + 1 / 2 ^ 47 + 1 / 2 ^ 47" using e t1 by simp
  then show "fst (uniform lo hi w) \<le> of_int hi + 1 / 2 ^ 46"
    unfolding u by (simp add: l_def d_def)
  show "0 \<le> fst (uniform lo hi w)"
    unfolding u using t0 l by (intro fl_nonneg) simp
qed

lemma rhe_le: "x \<le> of_int n + 1 / 4 \<Longrightarrow> rhe x \<le> n"
proof -
  assume a: "x \<le> of_int n + 1 / 4"
  have "(of_int (rhe x) :: rat) < of_int (n + 1)" using a rhe_bounds(2)[of x] by simp
  then have "rhe x < n + 1" by (simp only: of_int_less_iff)
  then show ?thesis by simp
qed

lemma rhe_ge: "of_int n - 1 / 4 \<le> x \<Longrightarrow> n \<le> rhe x"
proof -
  assume a: "of_int n - 1 / 4 \<le> x"
  have "(of_int (n - 1) :: rat) < of_int (rhe x)" using a rhe_bounds(1)[of x] by simp
  then have "n - 1 < rhe x" by (simp only: of_int_less_iff)
  then show ?thesis by simp
qed

section \<open>Properties of attendance records\<close>

text \<open>
  The one record generated in the example world: back one day from the clock reading,
  check-in at 9:15, check-out at 18:00, 8.75 hours, on leave.
\<close>

lemma attendance_example:
  "fst (generate_attendance 1 world_9_15) = 
  [\<lparr>att_emp = ''EMP0001'', att_name = (0, 0), att_date = 739189, att_check_in = (9, 15, 0),
   att_check_out = (18, 0, 0), att_work_hours = 35 / 4, att_status = OnLeave,
   att_late_minutes = 0, att_early_minutes = 0, att_place = Headquarters, att_source = DingTalk,
   att_remark = TrafficJam\<rparr>]"
  by code_simp

text \<open>
  Claim C9. No attendance record that \<open>generate_attendance\<close> produces has the status
  "late", and its lateness-minutes field is 0: a check-in in the 9 o'clock hour has a
  minute between 1 and 30 after the rebasing, so the late branch is never taken.
\<close>

theorem attendance_never_late:
  "\<forall>r \<in> set (fst (generate_attendance count w)).
     att_status r \<noteq> Late \<and> att_late_minutes r = 0"
  unfolding generate_attendance_def
  by (rule attendance_loop_all) (rule attendance_record_never_late)

text \<open>
  Witness for C9: the example world produces a record, checked in at 9:15.
\<close>

theorem attendance_never_late_witness:
  "\<exists>r. r \<in> set (fst (generate_attendance 1 world_9_15)) \<and> att_check_in r = (9, 15, 0) \<and>
      att_status r \<noteq> Late \<and> att_late_minutes r = 0"
  using attendance_never_late[of 1 world_9_15] by (simp add: attendance_example)

text \<open>
  Claim C4. For every attendance record the status is "late" exactly when the check-in
  minute of the hour exceeds 30 and the check-in hour is 9; otherwise it is "early leave"
  exactly when the check-out hour is before 18; otherwise it is one of "normal" and
  "on leave" (the element drawn by \<open>random.choice\<close>).
\<close>

theorem attendance_status_rule:
  "\<forall>r \<in> set (fst (generate_attendance count w)).
     (case att_check_in r of (ih, im, is) \<Rightarrow> case att_check_out r of (oh, om, os) \<Rightarrow>
        (att_status r = Late \<longleftrightarrow> 30 < im \<and> ih = 9) \<and>
        (\<not> (30 < im \<and> ih = 9) \<longrightarrow> (att_status r = EarlyLeave \<longleftrightarrow> oh < 18)) \<and>
        (\<not> (30 < im \<and> ih = 9) \<and> \<not> oh < 18 \<longrightarrow> att_status r \<in> {Normal, OnLeave}))"
  unfolding generate_attendance_def
proof (rule attendance_loop_all)
  fix w
  obtain ih im oh om s c where
    "att_check_in (fst (attendance_record w)) = (ih, im, s)"
    "att_check_out (fst (attendance_record w)) = (oh, om, s)"
    "att_status (fst (attendance_record w)) =
       (if 30 < im \<and> ih = 9 then Late else if oh < 18 then EarlyLeave else c)"
    "c = Normal \<or> c = OnLeave"
    by (rule attendance_record_shape)
  then show "case att_check_in (fst (attendance_record w)) of (ih, im, is) \<Rightarrow>
     case att_check_out (fst (attendance_record w)) of (oh, om, os) \<Rightarrow>
        (att_status (fst (attendance_record w)) = Late \<longleftrightarrow> 30 < im \<and> ih = 9) \<and>
        (\<not> (30 < im \<and> ih = 9) \<longrightarrow> (att_status (fst (attendance_record w)) = EarlyLeave \<longleftrightarrow> oh < 18)) \<and>
        (\<not> (30 < im \<and> ih = 9) \<and> \<not> oh < 18 \<longrightarrow> att_status (fst (attendance_record w)) \<in> {Normal, OnLeave})"
    by auto
qed

text \<open>
  Witness for C4: the record of the example world is drawn "on leave".
\<close>

theorem attendance_status_rule_witness:
  "\<exists>r. r \<in> set (fst (generate_attendance 1 world_9_15)) \<and> att_status r = OnLeave \<and>
     (case att_check_in r of (ih, im, is) \<Rightarrow> case att_check_out r of (oh, om, os) \<Rightarrow>
        (att_status r = Late \<longleftrightarrow> 30 < im \<and> ih = 9) \<and>
        (\<not> (30 < im \<and> ih = 9) \<longrightarrow> (att_status r = EarlyLeave \<longleftrightarrow> oh < 18)) \<and>
        (\<not> (30 < im \<and> ih = 9) \<and> \<not> oh < 18 \<longrightarrow> att_status r \<in> {Normal, OnLeave}))"
  using attendance_status_rule[of 1 world_9_15] by (simp add: attendance_example)



text \<open>
  The early-leave minutes are the clamped difference of 18:00 against the check-out time
  for every record.
\<close>

lemma attendance_early_minutes:
  "\<forall>r \<in> set (fst (generate_attendance count w)).
     (case att_check_out r of (oh, om, os) \<Rightarrow>
        att_early_minutes r = max 0 (18 * 60 - (oh * 60 + om)))"
  unfolding generate_attendance_def
proof (rule attendance_loop_all)
  fix w
  obtain oh om s where
    "att_check_out (fst (attendance_record w)) = (oh, om, s)"
    "att_early_minutes (fst (attendance_record w)) = max 0 (18 * 60 - (oh * 60 + om))"
    by (rule attendance_record_shape)
  then show "case att_check_out (fst (attendance_record w)) of (oh, om, os) \<Rightarrow>
        att_early_minutes (fst (attendance_record w)) = max 0 (18 * 60 - (oh * 60 + om))"
    by auto
qed

text \<open>
  Claim C8. For every attendance record the worked hours are the seconds between
  check-in and check-out divided by 3600 (as a float) and rounded to 2 decimals; the
  check-out is never before the check-in, and the worked hours are not negative.
\<close>

theorem attendance_work_hours:
  "\<forall>r \<in> set (fst (generate_attendance count w)).
     (case att_check_in r of (ih, im, is) \<Rightarrow> case att_check_out r of (oh, om, os) \<Rightarrow>
        att_work_hours r =
          py_round (int_truediv ((oh * 3600 + om * 60 + os) - (ih * 3600 + im * 60 + is)) 3600) 2 \<and>
        (ih * 3600 + im * 60 + is) \<le> (oh * 3600 + om * 60 + os) \<and>
        0 \<le> att_work_hours r)"
  unfolding generate_attendance_def
proof (rule attendance_loop_all)
  fix w
  obtain ih im oh om s where f:
    "att_check_in (fst (attendance_record w)) = (ih, im, s)"
    "att_check_out (fst (attendance_record w)) = (oh, om, s)"
    "ih = 8 \<and> 0 \<le> im \<and> im \<le> 30 \<or> ih = 9 \<and> 1 \<le> im \<and> im \<le> 30"
    "oh = 17 \<and> 30 \<le> om \<and> om \<le> 59 \<or> oh = 18 \<and> 0 \<le> om \<and> om \<le> 59"
    "att_work_hours (fst (attendance_record w)) =
       py_round (int_truediv ((oh * 3600 + om * 60) - (ih * 3600 + im * 60)) 3600) 2"
    by (rule attendance_record_shape)
  have le: "ih * 3600 + im * 60 \<le> oh * 3600 + om * 60" using f(3,4) by auto
  then have "(0::rat) \<le> of_int ((oh * 3600 + om * 60) - (ih * 3600 + im * 60)) / of_int 3600"
    by (intro divide_nonneg_nonneg) simp_all
  then have "0 \<le> att_work_hours (fst (attendance_record w))"
    unfolding f(5) int_truediv_def by (intro py_round_nonneg fl_nonneg)
  with f le show "case att_check_in (fst (attendance_record w)) of (ih, im, is) \<Rightarrow>
     case att_check_out (fst (attendance_record w)) of (oh, om, os) \<Rightarrow>
        att_work_hours (fst (attendance_record w)) =
          py_round (int_truediv ((oh * 3600 + om * 60 + os) - (ih * 3600 + im * 60 + is)) 3600) 2 \<and>
        (ih * 3600 + im * 60 + is) \<le> (oh * 3600 + om * 60 + os) \<and>
        0 \<le> att_work_hours (fst (attendance_record w))"
    by simp
qed

text \<open>
  Witness for C8: 8.75 hours in the example world.
\<close>

theorem attendance_work_hours_witness:
  "\<exists>r. r \<in> set (fst (generate_attendance 1 world_9_15)) \<and> att_work_hours r = 35 / 4 \<and>
     (case att_check_in r of (ih, im, is) \<Rightarrow> case att_check_out r of (oh, om, os) \<Rightarrow>
        att_work_hours r =
          py_round (int_truediv ((oh * 3600 + om * 60 + os) - (ih * 3600 + im * 60 + is)) 3600) 2 \<and>
        (ih * 3600 + im * 60 + is) \<le> (oh * 3600 + om * 60 + os) \<and>
        0 \<le> att_work_hours r)"
  using attendance_work_hours[of 1 world_9_15] by (simp add: attendance_example)

section \<open>Properties of random dates\<close>

lemma td_days_pos_iff: "0 < td_days (e - s) \<longleftrightarrow> s + timedelta_days 1 \<le> e"
proof -
  have "0 < (e - s) div 86400000000 \<longleftrightarrow> 86400000000 \<le> e - s"
    by (rule pos_imp_zdiv_pos_iff) simp
  then show ?thesis
    by (auto simp add: td_days_def timedelta_days_def us_per_day_def)
qed

lemma random_date_fails:
  assumes "end_date < start_date + timedelta_days 1"
  shows "random_date start_date end_date w = Inl ValueError"
  using assms td_days_pos_iff[of end_date start_date]
  by (simp add: random_date_def randrange_def Let_def)

lemma random_date_returns:
  assumes "start_date + timedelta_days 1 \<le> end_date"
  shows "\<exists>k w'. random_date start_date end_date w = Inr (start_date + timedelta_days k, w') \<and>
           0 \<le> k \<and> k < td_days (end_date - start_date) \<and>
           start_date \<le> start_date + timedelta_days k \<and> start_date + timedelta_days k < end_date"
proof -
  define n where "n = td_days (end_date - start_date)"
  define k where "k = int (fst (randbelow (nat n) w))"
  have n: "0 < n" using assms td_days_pos_iff[of end_date start_date] by (simp add: n_def)
  then have "fst (next_draw w) mod nat n < nat n" by simp
  then have "int (fst (next_draw w) mod nat n) < n" using n by linarith
  then have k: "0 \<le> k" "k < n" by (simp_all add: k_def randbelow_def split_beta)
  have r: "random_date start_date end_date w =
      Inr (start_date + timedelta_days k, snd (randbelow (nat n) w))"
    using n by (simp add: random_date_def randrange_def Let_def split_beta n_def k_def)
  have "n * us_per_day \<le> end_date - start_date"
    unfolding n_def td_days_def by (simp add: us_per_day_def)
  moreover have "(k + 1) * us_per_day \<le> n * us_per_day"
    using k by (intro mult_right_mono) (simp_all add: us_per_day_def)
  ultimately have "k * us_per_day < end_date - start_date"
    by (simp add: algebra_simps us_per_day_def)
  moreover have "0 \<le> k * us_per_day" using k by (simp add: us_per_day_def)
  ultimately show ?thesis using r k
    by (auto simp: timedelta_days_def n_def)
qed

text \<open>
  Claim C10, amended: \<open>random_date\<close> returns a datetime \<open>d\<close> with
  \<open>start_date \<le> d < end_date\<close> whenever \<open>end_date\<close> is at least one whole day later
  than \<open>start_date\<close>; when it is less than a whole day later (equal and earlier
  included) the day count is not positive and the call fails in \<open>randrange\<close>.
\<close>

theorem random_date_whole_day:
  "(start_date + timedelta_days 1 \<le> end_date \<longrightarrow>
      (\<exists>d w'. random_date start_date end_date w = Inr (d, w') \<and> start_date \<le> d \<and> d < end_date)) \<and>
   (end_date < start_date + timedelta_days 1 \<longrightarrow>
      random_date start_date end_date w = Inl ValueError)"
  using random_date_returns[of start_date end_date w] random_date_fails[of end_date start_date w]
  by blast

text \<open>
  Claim C10, as stated: a result whenever \<open>end_date\<close> is strictly later than
  \<open>start_date\<close>. Between 2024-11-01 10:00 and 22:00 of the same day the timedelta has
  0 days, and the call fails.
\<close>

theorem random_date_counterexample:
  "\<not> ((63866052000000000::int) < 63866095200000000 \<longrightarrow>
      (\<exists>d w'. random_date 63866052000000000 63866095200000000 world_9_15 = Inr (d, w') \<and>
         63866052000000000 \<le> d \<and> d < 63866095200000000))"
  by (simp add: random_date_def randrange_def td_days_def us_per_day_def)

text \<open>
  Witness for the amended C10: a result for a range of 90 days, the failure for equal
  arguments and for arguments 12 hours apart.
\<close>

theorem random_date_whole_day_witness:
  "(\<exists>d w'. random_date 63866052000000000 63873828000000000 world_9_15 = Inr (d, w') \<and>
       63866052000000000 \<le> d \<and> d < 63873828000000000) \<and>
   random_date 63866052000000000 63866052000000000 world_9_15 = Inl ValueError \<and>
   random_date 63866052000000000 63866095200000000 world_9_15 = Inl ValueError"
  using random_date_whole_day[of 63866052000000000 63873828000000000 world_9_15]
    random_date_whole_day[of 63866052000000000 63866052000000000 world_9_15]
    random_date_whole_day[of 63866052000000000 63866095200000000 world_9_15]
  by (simp add: timedelta_days_def us_per_day_def)

section \<open>Properties of trip records\<close>

lemma date_of_add_days: "date_of (d + timedelta_days n) = date_of d + n"
  by (simp add: date_of_def timedelta_days_def us_per_day_def)

lemma choice_allowance: "fst (choice [200, 300, 400, 500 :: int] w) \<in> {200, 300, 400, 500}"
  using choice_mem[of "[200, 300, 400, 500 :: int]" w] by auto

lemma trip_record_shape:
  assumes "trip_record i w = Inr (t, w')"
  shows "trip_total t =
           trip_daily_allowance t * trip_days t + trip_accommodation t + trip_transportation t
             + trip_meal t \<and>
         (\<exists>rate. 200 \<le> rate \<and> rate \<le> 800 \<and> trip_accommodation t = rate * trip_days t) \<and>
         (\<exists>rate. 100 \<le> rate \<and> rate \<le> 300 \<and> trip_meal t = rate * trip_days t) \<and>
         trip_end t = trip_start t + trip_days t \<and> trip_start t \<le> trip_end t \<and>
         1 \<le> trip_days t \<and> trip_days t \<le> 7"
proof -
  obtain start_date w3 where
    "random_date (fst (datetime_now w) - timedelta_days 90)
       (fst (datetime_now (snd (datetime_now w)))) (snd (datetime_now (snd (datetime_now w))))
     = Inr (start_date, w3)"
    using assms by (auto simp add: trip_record_def Let_def split_beta split: sum.splits)
  define n where "n = fst (randint 1 7 w3)"
  define w4 where "w4 = snd (randint 1 7 w3)"
  define w5 where "w5 = snd (choice [200, 300, 400, 500 :: int] w4)"
  define a where "a = fst (randint 200 800 w5)"
  define w6 where "w6 = snd (randint 200 800 w5)"
  define w7 where "w7 = snd (randint 500 2000 w6)"
  define m where "m = fst (randint 100 300 w7)"
  have n: "1 \<le> n" "n \<le> 7" using randint_range[of 1 7 w3] by (simp_all add: n_def)
  have a: "200 \<le> a" "a \<le> 800" using randint_range[of 200 800 w5] by (simp_all add: a_def)
  have m: "100 \<le> m" "m \<le> 300" using randint_range[of 100 300 w7] by (simp_all add: m_def)
  have f: "trip_days t = n" "trip_accommodation t = a * n" "trip_meal t = m * n"
    "trip_start t = date_of start_date" "trip_end t = date_of start_date + n"
    "trip_total t = trip_daily_allowance t * n + a * n + trip_transportation t + m * n"
    using assms \<open>random_date _ _ _ = Inr (start_date, w3)\<close>
    by (auto simp add: trip_record_def Let_def split_beta date_of_add_days
        n_def a_def m_def w4_def w5_def w6_def w7_def)
  show ?thesis
    using n a m by (auto simp add: f)
qed

lemma trips_loop_all:
  assumes "\<And>i w t w'. trip_record i w = Inr (t, w') \<Longrightarrow> P t"
  shows "trips_loop i n w = Inr (ts, w') \<Longrightarrow> \<forall>t \<in> set ts. P t"
proof (induction n arbitrary: i w ts w')
  case 0
  then show ?case by simp
next
  case (Suc n)
  then show ?case
    using assms by (fastforce split: sum.splits)
qed

text \<open>
  Claim C6. For every trip record of a run of \<open>generate_business_trips\<close> that returns,
  the total allowance is daily allowance times days plus accommodation, transportation
  and meal; accommodation and meal are per-day rates (200 to 800, 100 to 300) times the
  days; the end date is the start date plus the days, so on or after the start date, and
  the days are at least 1.
\<close>

theorem business_trip_totals:
  assumes "generate_business_trips count w = Inr (ts, w')"
  shows "\<forall>t \<in> set ts.
     trip_total t =
       trip_daily_allowance t * trip_days t + trip_accommodation t + trip_transportation t
         + trip_meal t \<and>
     (\<exists>rate. 200 \<le> rate \<and> rate \<le> 800 \<and> trip_accommodation t = rate * trip_days t) \<and>
     (\<exists>rate. 100 \<le> rate \<and> rate \<le> 300 \<and> trip_meal t = rate * trip_days t) \<and>
     trip_end t = trip_start t + trip_days t \<and> trip_start t \<le> trip_end t \<and>
     1 \<le> trip_days t \<and> trip_days t \<le> 7"
  using assms unfolding generate_business_trips_def
  by (rule trips_loop_all[rotated]) (rule trip_record_shape)

text \<open>
  The one trip generated in the example world: 3 days from day 739110, total 4050.
\<close>

lemma trips_example:
  "map_sum id fst (generate_business_trips 1 world_trip) =
     Inr [\<lparr>trip_no = (739190, ''0001''), trip_emp = ''EMP0001'', trip_name = (0, 0),
           trip_destination = 0, trip_reason = CustomerVisit, trip_start = 739110,
           trip_end = 739113, trip_days = 3, trip_daily_allowance = 300,
           trip_accommodation = 1500, trip_transportation = 1200, trip_meal = 450,
           trip_total = 4050, trip_approval = WaitingApproval, trip_submitted = 739110\<rparr>]"
  by code_simp

text \<open>
  Witness for C6: the run in the example world returns, with the trip above.
\<close>

theorem business_trip_totals_witness:
  "\<exists>t ts w'. generate_business_trips 1 world_trip = Inr (t # ts, w') \<and>
     trip_start t = 739110 \<and> trip_end t = 739113 \<and> trip_days t = 3 \<and>
     trip_start t \<le> trip_end t \<and> 1 \<le> trip_days t \<and>
     trip_total t =
       trip_daily_allowance t * trip_days t + trip_accommodation t + trip_transportation t
         + trip_meal t \<and> trip_total t = 4050"
proof -
  obtain ts w' where g: "generate_business_trips 1 world_trip = Inr (ts, w')"
    and ts: "ts = [\<lparr>trip_no = (739190, ''0001''), trip_emp = ''EMP0001'', trip_name = (0, 0),
           trip_destination = 0, trip_reason = CustomerVisit, trip_start = 739110,
           trip_end = 739113, trip_days = 3, trip_daily_allowance = 300,
           trip_accommodation = 1500, trip_transportation = 1200, trip_meal = 450,
           trip_total = 4050, trip_approval = WaitingApproval, trip_submitted = 739110\<rparr>]"
    using trips_example by (cases "generate_business_trips 1 world_trip") auto
  from business_trip_totals[OF g] show ?thesis
    unfolding g ts by simp
qed

section \<open>Properties of contribution records\<close>

text \<open>
  Every base amount is a multiple of 1000 and every rate a multiple of 1/1000, so each
  category amount is a whole number, which the float product misses by far less than
  half a cent and \<open>round\<close> restores exactly.
\<close>

lemma tier_field:
  assumes "0 \<le> k" "k \<le> 20" "0 \<le> q" "q \<le> 1 / 4" "1000 * q = of_int p"
  shows "py_round (fmul (of_int (1000 * k)) (fl q)) 2 = of_int (k * p)"
proof (rule round2_fmul_lit)
  show "0 \<le> 1000 * k" "1000 * k \<le> 20000" using assms(1,2) by simp_all
  show "0 \<le> q" "q \<le> 1 / 4" by fact+
  have "rat_of_int (1000 * k) * q = of_int k * (1000 * q)" by simp
  then show "rat_of_int (1000 * k) * q = rat_of_int (k * p)" by (simp add: assms(5))
qed

lemma choice_base:
  "\<exists>k. fst (choice [5000, 6000, 8000, 10000, 12000, 15000, 20000 :: int] w) = 1000 * k \<and>
     5 \<le> k \<and> k \<le> 20"
proof -
  have "fst (choice [5000, 6000, 8000, 10000, 12000, 15000, 20000 :: int] w)
      \<in> set [5000, 6000, 8000, 10000, 12000, 15000, 20000]"
    by (rule choice_mem) simp
  then show ?thesis
    by (auto intro: exI[of _ 5] exI[of _ 6] exI[of _ 8] exI[of _ 10] exI[of _ 12]
        exI[of _ 15] exI[of _ 20])
qed

lemma contribution_record_shape:
  obtains k where "5 \<le> k" "k \<le> 20"
    "ss_base (fst (contribution_record i w)) = 1000 * k"
    "ss_pension_company (fst (contribution_record i w)) = of_int (k * 160)"
    "ss_pension_personal (fst (contribution_record i w)) = of_int (k * 80)"
    "ss_medical_company (fst (contribution_record i w)) = of_int (k * 100)"
    "ss_medical_personal (fst (contribution_record i w)) = of_int (k * 20)"
    "ss_unemployment_company (fst (contribution_record i w)) = of_int (k * 7)"
    "ss_unemployment_personal (fst (contribution_record i w)) = of_int (k * 3)"
    "ss_injury_company (fst (contribution_record i w)) = of_int (k * 5)"
    "ss_maternity_company (fst (contribution_record i w)) = of_int (k * 8)"
    "ss_housing_fund_company (fst (contribution_record i w)) = of_int (k * 120)"
    "ss_housing_fund_personal (fst (contribution_record i w)) = of_int (k * 120)"
    "ss_total_company (fst (contribution_record i w)) = of_int (k * 400)"
    "ss_total_personal (fst (contribution_record i w)) = of_int (k * 223)"
    "ss_total (fst (contribution_record i w)) = of_int (k * 623)"
proof -
  define base where "base = fst (choice [5000, 6000, 8000, 10000, 12000, 15000, 20000 :: int] w)"
  obtain k where k: "base = 1000 * k" "5 \<le> k" "k \<le> 20"
    using choice_base[of w] unfolding base_def by blast
  define F where "F q = py_round (fmul (of_int base) (fl q)) 2" for q
  have F: "F q = of_int (k * p)" if "0 \<le> q" "q \<le> 1 / 4" "1000 * q = of_int p" for q p
    unfolding F_def k(1) using k(2,3) that by (intro tier_field) simp_all
  have f: "F (16 / 100) = of_int (k * 160)" "F (8 / 100) = of_int (k * 80)"
    "F (10 / 100) = of_int (k * 100)" "F (2 / 100) = of_int (k * 20)"
    "F (7 / 1000) = of_int (k * 7)" "F (3 / 1000) = of_int (k * 3)"
    "F (5 / 1000) = of_int (k * 5)" "F (8 / 1000) = of_int (k * 8)"
    "F (12 / 100) = of_int (k * 120)"
    by (rule F; simp)+
  have add: "fadd (of_int a) (of_int b) = of_int (a + b)" if "0 \<le> a" "a \<le> 20000" "0 \<le> b" "b \<le> 20000"
    for a b using that by (intro fadd_of_int) simp
  have rnd: "py_round (of_int a) 2 = of_int a" if "0 \<le> a" "a \<le> 20000" for a
    using that by (intro py_round_of_int) simp
  have tc: "fadd (fadd (fadd (fadd (fadd (F (16 / 100)) (F (10 / 100))) (F (7 / 1000)))
              (F (5 / 1000))) (F (8 / 1000))) (F (12 / 100)) = of_int (k * 400)"
    unfolding f using k(2,3) by (simp only: add)
  have tp: "fadd (fadd (fadd (F (8 / 100)) (F (2 / 100))) (F (3 / 1000))) (F (12 / 100))
      = of_int (k * 223)"
    unfolding f using k(2,3) by (simp only: add)
  have tt: "fadd (of_int (k * 400)) (of_int (k * 223)) = of_int (k * 623)"
    using k(2,3) by (simp only: add)
  have r: "py_round (of_int (k * 400)) 2 = of_int (k * 400)"
    "py_round (of_int (k * 223)) 2 = of_int (k * 223)"
    "py_round (of_int (k * 623)) 2 = of_int (k * 623)"
    using k(2,3) by (simp_all only: rnd)
  have rec: "fst (contribution_record i w) =
    \<lparr>ss_emp = ss_emp (fst (contribution_record i w)),
     ss_name = ss_name (fst (contribution_record i w)),
     ss_month = ss_month (fst (contribution_record i w)),
     ss_base = base,
     ss_pension_company = F (16 / 100),
     ss_pension_personal = F (8 / 100),
     ss_medical_company = F (10 / 100),
     ss_medical_personal = F (2 / 100),
     ss_unemployment_company = F (7 / 1000),
     ss_unemployment_personal = F (3 / 1000),
     ss_injury_company = F (5 / 1000),
     ss_maternity_company = F (8 / 1000),
     ss_housing_fund_company = F (12 / 100),
     ss_housing_fund_personal = F (12 / 100),
     ss_total_company = py_round (fadd (fadd (fadd (fadd (fadd (F (16 / 100)) (F (10 / 100)))
         (F (7 / 1000))) (F (5 / 1000))) (F (8 / 1000))) (F (12 / 100))) 2,
     ss_total_personal = py_round (fadd (fadd (fadd (F (8 / 100)) (F (2 / 100))) (F (3 / 1000)))
         (F (12 / 100))) 2,
     ss_total = py_round (fadd (fadd (fadd (fadd (fadd (fadd (F (16 / 100)) (F (10 / 100)))
         (F (7 / 1000))) (F (5 / 1000))) (F (8 / 1000))) (F (12 / 100)))
         (fadd (fadd (fadd (F (8 / 100)) (F (2 / 100))) (F (3 / 1000))) (F (12 / 100)))) 2,
     ss_state = ss_state (fst (contribution_record i w))\<rparr>"
    unfolding F_def base_def
    by (simp add: contribution_record_def Let_def split_beta)
  have g: "ss_base (fst (contribution_record i w)) = 1000 * k"
    "ss_pension_company (fst (contribution_record i w)) = of_int (k * 160)"
    "ss_pension_personal (fst (contribution_record i w)) = of_int (k * 80)"
    "ss_medical_company (fst (contribution_record i w)) = of_int (k * 100)"
    "ss_medical_personal (fst (contribution_record i w)) = of_int (k * 20)"
    "ss_unemployment_company (fst (contribution_record i w)) = of_int (k * 7)"
    "ss_unemployment_personal (fst (contribution_record i w)) = of_int (k * 3)"
    "ss_injury_company (fst (contribution_record i w)) = of_int (k * 5)"
    "ss_maternity_company (fst (contribution_record i w)) = of_int (k * 8)"
    "ss_housing_fund_company (fst (contribution_record i w)) = of_int (k * 120)"
    "ss_housing_fund_personal (fst (contribution_record i w)) = of_int (k * 120)"
    "ss_total_company (fst (contribution_record i w)) = of_int (k * 400)"
    "ss_total_personal (fst (contribution_record i w)) = of_int (k * 223)"
    "ss_total (fst (contribution_record i w)) = of_int (k * 623)"
    by (subst rec, simp only: contribution.simps tc[unfolded f] tp[unfolded f] tt r f k(1))+
  show ?thesis
    by (rule that[OF k(2,3) g])
qed

lemma contributions_loop_all:
  assumes "\<And>i w. P (fst (contribution_record i w))"
  shows "\<forall>r \<in> set (fst (contributions_loop i n w)). P r"
  using assms by (induction n arbitrary: i w) (auto simp: split_beta Let_def)

text \<open>
  Claim C5. For every contribution record the company total equals the sum of the six
  company-side category fields, the personal total equals the sum of the four
  personal-side category fields, and the grand total equals company total plus personal
  total. The equalities are exact: every amount is a whole number, so rounding to 2
  decimals changes nothing.
\<close>

theorem contribution_totals:
  "\<forall>r \<in> set (fst (generate_social_security count w)).
     ss_total_company r =
       ss_pension_company r + ss_medical_company r + ss_unemployment_company r
         + ss_injury_company r + ss_maternity_company r + ss_housing_fund_company r \<and>
     ss_total_personal r =
       ss_pension_personal r + ss_medical_personal r + ss_unemployment_personal r
         + ss_housing_fund_personal r \<and>
     ss_total r = ss_total_company r + ss_total_personal r"
  unfolding generate_social_security_def
proof (rule contributions_loop_all)
  fix i w
  obtain k where
    "ss_pension_company (fst (contribution_record i w)) = of_int (k * 160)"
    "ss_pension_personal (fst (contribution_record i w)) = of_int (k * 80)"
    "ss_medical_company (fst (contribution_record i w)) = of_int (k * 100)"
    "ss_medical_personal (fst (contribution_record i w)) = of_int (k * 20)"
    "ss_unemployment_company (fst (contribution_record i w)) = of_int (k * 7)"
    "ss_unemployment_personal (fst (contribution_record i w)) = of_int (k * 3)"
    "ss_injury_company (fst (contribution_record i w)) = of_int (k * 5)"
    "ss_maternity_company (fst (contribution_record i w)) = of_int (k * 8)"
    "ss_housing_fund_company (fst (contribution_record i w)) = of_int (k * 120)"
    "ss_housing_fund_personal (fst (contribution_record i w)) = of_int (k * 120)"
    "ss_total_company (fst (contribution_record i w)) = of_int (k * 400)"
    "ss_total_personal (fst (contribution_record i w)) = of_int (k * 223)"
    "ss_total (fst (contribution_record i w)) = of_int (k * 623)"
    by (rule contribution_record_shape)
  then show "ss_total_company (fst (contribution_record i w)) =
       ss_pension_company (fst (contribution_record i w))
         + ss_medical_company (fst (contribution_record i w))
         + ss_unemployment_company (fst (contribution_record i w))
         + ss_injury_company (fst (contribution_record i w))
         + ss_maternity_company (fst (contribution_record i w))
         + ss_housing_fund_company (fst (contribution_record i w)) \<and>
     ss_total_personal (fst (contribution_record i w)) =
       ss_pension_personal (fst (contribution_record i w))
         + ss_medical_personal (fst (contribution_record i w))
         + ss_unemployment_personal (fst (contribution_record i w))
         + ss_housing_fund_personal (fst (contribution_record i w)) \<and>
     ss_total (fst (contribution_record i w)) =
       ss_total_company (fst (contribution_record i w))
         + ss_total_personal (fst (contribution_record i w))"
    by simp
qed

lemma contributions_single:
  "fst (generate_social_security 1 w) = [fst (contribution_record 0 w)]"
proof -
  have "contributions_loop 0 (Suc 0) w =
      (fst (contribution_record 0 w) # [], snd (contribution_record 0 w))"
    by (simp add: split_beta)
  then show ?thesis by (simp add: generate_social_security_def)
qed

lemma contributions_example_base:
  "ss_base (fst (contribution_record 0 world_base_10000)) = 10000"
  by (simp add: contribution_record_def Let_def split_beta choice_def randbelow_def
      next_draw_def world_base_10000_def)

text \<open>
  Witness for C5: base amount 10000 gives 4000, 2230 and 6230.
\<close>

theorem contribution_totals_witness:
  "\<exists>r. r \<in> set (fst (generate_social_security 1 world_base_10000)) \<and>
     ss_base r = 10000 \<and> ss_total_company r = 4000 \<and> ss_total_personal r = 2230 \<and>
     ss_total r = 6230 \<and>
     ss_total_company r =
       ss_pension_company r + ss_medical_company r + ss_unemployment_company r
         + ss_injury_company r + ss_maternity_company r + ss_housing_fund_company r \<and>
     ss_total_personal r =
       ss_pension_personal r + ss_medical_personal r + ss_unemployment_personal r
         + ss_housing_fund_personal r \<and>
     ss_total r = ss_total_company r + ss_total_personal r"
proof -
  define r where "r = fst (contribution_record 0 world_base_10000)"
  have mem: "r \<in> set (fst (generate_social_security 1 world_base_10000))"
    by (simp add: contributions_single r_def)
  obtain k where k: "ss_base r = 1000 * k" "ss_total_company r = of_int (k * 400)"
    "ss_total_personal r = of_int (k * 223)" "ss_total r = of_int (k * 623)"
    unfolding r_def by (rule contribution_record_shape)
  have "k = 10" using k(1) contributions_example_base by (simp add: r_def)
  then have v: "ss_total_company r = 4000" "ss_total_personal r = 2230" "ss_total r = 6230"
    using k by simp_all
  from contribution_totals[of 1 world_base_10000] mem
  have "ss_total_company r =
       ss_pension_company r + ss_medical_company r + ss_unemployment_company r
         + ss_injury_company r + ss_maternity_company r + ss_housing_fund_company r \<and>
     ss_total_personal r =
       ss_pension_personal r + ss_medical_personal r + ss_unemployment_personal r
         + ss_housing_fund_personal r \<and>
     ss_total r = ss_total_company r + ss_total_personal r"
    by blast
  with mem v contributions_example_base show ?thesis
    unfolding r_def by blast
qed

section \<open>Properties of meal records\<close>

text \<open>
  The three amounts of a meal, from a price \<open>u\<close> between 5 and 35 (up to the float
  error of \<open>uniform\<close>) and a discount fraction of at most 0.8: in cents, the original
  price is \<open>j\<close>, the subsidy \<open>k < j\<close> and the amount paid exactly \<open>j - k\<close>.
\<close>

lemma meal_amounts:
  fixes u f :: rat
  assumes u: "5 - 1 / 2 ^ 46 \<le> u" "u \<le> 35 + 1 / 2 ^ 46"
    and f: "0 \<le> f" "f \<le> 8 / 10 + 1 / 2 ^ 53"
  defines "orig \<equiv> py_round u 2"
  defines "subsidy \<equiv> py_round (fmul orig f) 2"
  shows "\<exists>j k. 500 \<le> j \<and> j \<le> 3500 \<and> 0 \<le> k \<and> k < j \<and>
           orig = fl (of_int j / 100) \<and> subsidy = fl (of_int k / 100) \<and>
           py_round (fsub orig subsidy) 2 = fl (of_int (j - k) / 100) \<and> subsidy < orig"
proof -
  define j where "j = rhe (u * 10 ^ 2)"
  define J :: rat where "J = of_int j"
  have "of_int 500 - 1 / 4 \<le> u * 10 ^ 2" using u(1) by simp
  then have j1: "500 \<le> j" unfolding j_def by (rule rhe_ge)
  have "u * 10 ^ 2 \<le> of_int 3500 + 1 / 4" using u(2) by simp
  then have j2: "j \<le> 3500" unfolding j_def by (rule rhe_le)
  have J: "500 \<le> J" "J \<le> 3500" using j1 j2 by (simp_all add: J_def)
  have o: "orig = fl (J / 100)" by (simp add: orig_def py_round_def j_def J_def)
  have "\<bar>J / 100\<bar> \<le> 64" using J by simp
  then have ob: "J / 100 - 1 / 2 ^ 47 \<le> orig" "orig \<le> J / 100 + 1 / 2 ^ 47"
    unfolding o by (rule fl_error_64)+
  have o0: "0 \<le> orig" using ob(1) J by simp
  define p where "p = fl (orig * f)"
  have of0: "0 \<le> orig * f" using o0 f(1) by simp
  have "orig * f \<le> (J / 100 + 1 / 2 ^ 47) * (8 / 10 + 1 / 2 ^ 53)"
    using ob(2) f o0 by (intro mult_mono) simp_all
  then have of1: "orig * f \<le> (8 / 1000) * J + 1 / 2 ^ 40" using J by simp
  have "\<bar>orig * f\<bar> \<le> 64" using of0 of1 J by simp
  then have "p \<le> orig * f + 1 / 2 ^ 47" unfolding p_def by (rule fl_error_64)
  then have p1: "p \<le> (8 / 1000) * J + 1 / 2 ^ 39" using of1 by simp
  have p0: "0 \<le> p" unfolding p_def using of0 by (rule fl_nonneg)
  define k where "k = rhe (p * 10 ^ 2)"
  define K :: rat where "K = of_int k"
  have k0: "0 \<le> k" unfolding k_def using p0 by (intro rhe_nonneg) simp
  have "p * 10 ^ 2 \<le> of_int (j - 1) + 1 / 4" using p1 J by (simp add: J_def)
  then have "k \<le> j - 1" unfolding k_def by (rule rhe_le)
  then have k1: "k < j" by simp
  have K: "0 \<le> K" "K \<le> J - 1" using k0 \<open>k \<le> j - 1\<close> by (simp_all add: K_def J_def)
  have s: "subsidy = fl (K / 100)"
    by (simp add: subsidy_def py_round_def k_def K_def p_def fmul_def)
  have "\<bar>K / 100\<bar> \<le> 64" using K J by simp
  then have sb: "K / 100 - 1 / 2 ^ 47 \<le> subsidy" "subsidy \<le> K / 100 + 1 / 2 ^ 47"
    unfolding s by (rule fl_error_64)+
  have lt: "subsidy < orig" using sb(2) ob(1) K by simp
  define d where "d = fl (orig - subsidy)"
  have "\<bar>orig - subsidy\<bar> \<le> 64" using sb ob K J by simp
  then have db: "orig - subsidy - 1 / 2 ^ 47 \<le> d" "d \<le> orig - subsidy + 1 / 2 ^ 47"
    unfolding d_def by (rule fl_error_64)+
  have "d * 10 ^ 2 \<le> of_int (j - k) + 1 / 4" using db(2) ob(2) sb(1) by (simp add: J_def K_def)
  then have r1: "rhe (d * 10 ^ 2) \<le> j - k" by (rule rhe_le)
  have "of_int (j - k) - 1 / 4 \<le> d * 10 ^ 2" using db(1) ob(1) sb(2) by (simp add: J_def K_def)
  then have r2: "j - k \<le> rhe (d * 10 ^ 2)" by (rule rhe_ge)
  have a: "py_round (fsub orig subsidy) 2 = fl (of_int (j - k) / 100)"
    using r1 r2 by (simp add: py_round_def fsub_def d_def[symmetric])
  show ?thesis
    using j1 j2 k0 k1 o s a lt unfolding J_def K_def by blast
qed

lemma choice_fraction:
  "0 \<le> fst (choice [fl (5 / 10), fl (6 / 10), fl (8 / 10)] w) \<and>
   fst (choice [fl (5 / 10), fl (6 / 10), fl (8 / 10)] w) \<le> 8 / 10 + 1 / 2 ^ 53"
proof -
  have "fst (choice [fl (5 / 10), fl (6 / 10), fl (8 / 10)] w)
      \<in> set [fl (5 / 10), fl (6 / 10), fl (8 / 10)]"
    by (rule choice_mem) simp
  moreover have "0 \<le> fl (5 / 10)" "0 \<le> fl (6 / 10)" "0 \<le> fl (8 / 10)"
    by (rule fl_nonneg, simp)+
  moreover have "fl (5 / 10) \<le> 5 / 10 + 1 / 2 ^ 53" "fl (6 / 10) \<le> 6 / 10 + 1 / 2 ^ 53"
    "fl (8 / 10) \<le> 8 / 10 + 1 / 2 ^ 53"
    by (rule fl_error_1, simp)+
  ultimately show ?thesis by auto
qed

lemma meal_price:
  "5 - 1 / 2 ^ 46 \<le> fst (uniform (fst (meal_types m)) (snd (meal_types m)) w) \<and>
   fst (uniform (fst (meal_types m)) (snd (meal_types m)) w) \<le> 35 + 1 / 2 ^ 46"
proof (cases m)
  case Breakfast
  show ?thesis using uniform_range(1,2)[of 5 15 w] by (simp add: Breakfast)
next
  case Lunch
  show ?thesis using uniform_range(1,2)[of 15 30 w] by (simp add: Lunch)
next
  case Dinner
  show ?thesis using uniform_range(1,2)[of 15 35 w] by (simp add: Dinner)
qed

lemma meal_record_shape:
  "\<exists>j k. 500 \<le> j \<and> j \<le> 3500 \<and> 0 \<le> k \<and> k < j \<and>
     meal_original (fst (meal_record w)) = fl (of_int j / 100) \<and>
     meal_subsidy (fst (meal_record w)) = fl (of_int k / 100) \<and>
     meal_actual (fst (meal_record w)) = fl (of_int (j - k) / 100) \<and>
     meal_actual (fst (meal_record w)) =
       py_round (fsub (meal_original (fst (meal_record w))) (meal_subsidy (fst (meal_record w)))) 2 \<and>
     meal_subsidy (fst (meal_record w)) < meal_original (fst (meal_record w))"
proof -
  define m where "m = fst (choice [Breakfast, Lunch, Dinner] w)"
  define w1 where "w1 = snd (choice [Breakfast, Lunch, Dinner] w)"
  define u where "u = fst (uniform (fst (meal_types m)) (snd (meal_types m)) w1)"
  define w2 where "w2 = snd (uniform (fst (meal_types m)) (snd (meal_types m)) w1)"
  define f where "f = fst (choice [fl (5 / 10), fl (6 / 10), fl (8 / 10)] w2)"
  have f: "meal_original (fst (meal_record w)) = py_round u 2"
    "meal_subsidy (fst (meal_record w)) = py_round (fmul (py_round u 2) f) 2"
    "meal_actual (fst (meal_record w)) =
       py_round (fsub (py_round u 2) (py_round (fmul (py_round u 2) f) 2)) 2"
    by (simp_all add: meal_record_def Let_def split_beta m_def w1_def u_def w2_def f_def)
  have "5 - 1 / 2 ^ 46 \<le> u" "u \<le> 35 + 1 / 2 ^ 46"
    using meal_price[of m w1] by (simp_all add: u_def)
  moreover have "0 \<le> f" "f \<le> 8 / 10 + 1 / 2 ^ 53"
    using choice_fraction[of w2] by (simp_all add: f_def)
  ultimately show ?thesis
    unfolding f using meal_amounts[of u f] by auto
qed

lemma meals_loop_all:
  assumes "\<And>w. P (fst (meal_record w))"
  shows "\<forall>r \<in> set (fst (meals_loop n w)). P r"
  using assms by (induction n arbitrary: w) (auto simp: split_beta Let_def)

text \<open>
  Claim C7. For every meal record the amount paid is the original price minus the subsidy
  rounded to 2 decimals (in cents it is exactly the difference), and the subsidy is
  strictly less than the original price, for every meal type, price and discount
  fraction drawn.
\<close>

theorem meal_amounts_consistent:
  "\<forall>r \<in> set (fst (generate_meal_records count w)).
     meal_actual r = py_round (fsub (meal_original r) (meal_subsidy r)) 2 \<and>
     (\<exists>j k. meal_original r = fl (of_int j / 100) \<and> meal_subsidy r = fl (of_int k / 100) \<and>
            meal_actual r = fl (of_int (j - k) / 100) \<and> 0 \<le> k \<and> k < j) \<and>
     meal_subsidy r < meal_original r"
  unfolding generate_meal_records_def
proof (rule meals_loop_all)
  fix w
  show "meal_actual (fst (meal_record w)) =
      py_round (fsub (meal_original (fst (meal_record w))) (meal_subsidy (fst (meal_record w)))) 2 \<and>
     (\<exists>j k. meal_original (fst (meal_record w)) = fl (of_int j / 100) \<and>
            meal_subsidy (fst (meal_record w)) = fl (of_int k / 100) \<and>
            meal_actual (fst (meal_record w)) = fl (of_int (j - k) / 100) \<and> 0 \<le> k \<and> k < j) \<and>
     meal_subsidy (fst (meal_record w)) < meal_original (fst (meal_record w))"
    using meal_record_shape[of w] by blast
qed

lemma meals_single: "fst (generate_meal_records 1 w) = [fst (meal_record w)]"
proof -
  have "meals_loop (Suc 0) w = (fst (meal_record w) # [], snd (meal_record w))"
    by (simp add: split_beta)
  then show ?thesis by (simp add: generate_meal_records_def)
qed

text \<open>
  The meal of the example world: a lunch at 22.50 with a subsidy of 18.00, 4.50 paid.
\<close>

lemma meals_example:
  "meal_kind (fst (meal_record world_lunch)) = Lunch \<and>
   meal_original (fst (meal_record world_lunch)) = 45 / 2 \<and>
   meal_subsidy (fst (meal_record world_lunch)) = 18 \<and>
   meal_actual (fst (meal_record world_lunch)) = 9 / 2"
proof -
  have e1: "fadd 15 (fmul 15 (1 / 2)) = 45 / 2" by code_simp
  have e2: "py_round (45 / 2) 2 = 45 / 2" by code_simp
  have e3: "py_round (fmul (45 / 2) (fl (8 / 10))) 2 = 18" by code_simp
  have e4: "py_round (fsub (45 / 2) 18) 2 = 9 / 2" by code_simp
  have k: "meal_kind (fst (meal_record world_lunch)) = Lunch"
    by (simp add: meal_record_def Let_def split_beta choice_def uniform_def random_def
        randbelow_def next_draw_def world_lunch_def)
  have o: "meal_original (fst (meal_record world_lunch)) =
      py_round (fadd 15 (fmul 15 (1 / 2))) 2"
    by (simp add: meal_record_def Let_def split_beta choice_def uniform_def random_def
        randbelow_def next_draw_def world_lunch_def)
  have s: "meal_subsidy (fst (meal_record world_lunch)) =
      py_round (fmul (py_round (fadd 15 (fmul 15 (1 / 2))) 2) (fl (8 / 10))) 2"
    by (simp add: meal_record_def Let_def split_beta choice_def uniform_def random_def
        randbelow_def next_draw_def world_lunch_def)
  have a: "meal_actual (fst (meal_record world_lunch)) =
      py_round (fsub (py_round (fadd 15 (fmul 15 (1 / 2))) 2)
        (py_round (fmul (py_round (fadd 15 (fmul 15 (1 / 2))) 2) (fl (8 / 10))) 2)) 2"
    by (simp add: meal_record_def Let_def split_beta choice_def uniform_def random_def
        randbelow_def next_draw_def world_lunch_def)
  show ?thesis
    unfolding k o s a e1 e2 e3 e4 by simp
qed

text \<open>
  Witness for C7.
\<close>

theorem meal_amounts_consistent_witness:
  "\<exists>r. r \<in> set (fst (generate_meal_records 1 world_lunch)) \<and>
     meal_original r = 45 / 2 \<and> meal_subsidy r = 18 \<and> meal_actual r = 9 / 2 \<and>
     meal_actual r = py_round (fsub (meal_original r) (meal_subsidy r)) 2 \<and>
     meal_subsidy r < meal_original r"
proof -
  define r where "r = fst (meal_record world_lunch)"
  have mem: "r \<in> set (fst (generate_meal_records 1 world_lunch))"
    by (simp add: meals_single r_def)
  from meal_amounts_consistent[of 1 world_lunch] mem
  have "meal_actual r = py_round (fsub (meal_original r) (meal_subsidy r)) 2 \<and>
      meal_subsidy r < meal_original r"
    by blast
  with mem meals_example[folded r_def] show ?thesis by blast
qed

section \<open>Properties of leave balances\<close>

text \<open>
  A fraction of \<open>n\<close> tenths of \<open>k\<close> tenths of a day, rounded to one decimal, is
  \<open>a\<close> tenths with \<open>10 a\<close> within 5 of \<open>n k\<close>: the float errors are far too small to
  move the rounding.
\<close>

lemma tenths_of_fraction:
  fixes used q :: rat and k n :: int
  assumes k: "0 \<le> k" "k \<le> 150"
    and used: "used = fl (of_int k / 10)"
    and n: "1 \<le> n" "n \<le> 9"
    and q: "q = of_int n / 10"
  shows "\<exists>a. py_round (fmul used (fl q)) 1 = fl (of_int a / 10) \<and>
           10 * a - n * k \<le> 5 \<and> - 5 \<le> 10 * a - n * k"
proof -
  define K :: rat where "K = of_int k"
  define N :: rat where "N = of_int n"
  have K: "0 \<le> K" "K \<le> 150" using k by (simp_all add: K_def)
  have N: "1 \<le> N" "N \<le> 9" using n by (simp_all add: N_def)
  have "\<bar>K / 10\<bar> \<le> 64" using K by simp
  then have ub: "K / 10 - 1 / 2 ^ 47 \<le> used" "used \<le> K / 10 + 1 / 2 ^ 47"
    unfolding used K_def[symmetric] by (rule fl_error_64)+
  have u0: "0 \<le> used" unfolding used using k by (intro fl_nonneg) simp
  have "\<bar>q\<bar> \<le> 1" using N by (simp add: q N_def[symmetric])
  then have cb: "N / 10 - 1 / 2 ^ 53 \<le> fl q" "fl q \<le> N / 10 + 1 / 2 ^ 53"
    unfolding q N_def[symmetric] by (rule fl_error_1)+
  have c0: "0 \<le> fl q" using N by (intro fl_nonneg) (simp add: q N_def[symmetric])
  have c1: "fl q \<le> 1" using cb(2) N by simp
  have c2: "0 \<le> N / 10 - 1 / 2 ^ 53" using N by simp
  have "used * fl q \<le> (K / 10 + 1 / 2 ^ 47) * fl q"
    using ub(2) c0 by (rule mult_right_mono)
  also have "\<dots> \<le> (K / 10 + 1 / 2 ^ 47) * (N / 10 + 1 / 2 ^ 53)"
    using cb(2) K by (intro mult_left_mono) simp_all
  also have "\<dots> = K * N / 100 + K / 10 / 2 ^ 53 + N / 10 / 2 ^ 47 + 1 / 2 ^ 47 / 2 ^ 53"
    by (simp add: algebra_simps)
  also have "\<dots> \<le> K * N / 100 + 1 / 2 ^ 40" using K N by simp
  finally have p1: "used * fl q \<le> K * N / 100 + 1 / 2 ^ 40" .
  have "(K / 10 - 1 / 2 ^ 47) * (N / 10 - 1 / 2 ^ 53) \<le> used * (N / 10 - 1 / 2 ^ 53)"
    using ub(1) c2 by (rule mult_right_mono)
  also have "\<dots> \<le> used * fl q"
    using cb(1) u0 by (rule mult_left_mono)
  finally have "(K / 10 - 1 / 2 ^ 47) * (N / 10 - 1 / 2 ^ 53) \<le> used * fl q" .
  moreover have "(K / 10 - 1 / 2 ^ 47) * (N / 10 - 1 / 2 ^ 53)
      = K * N / 100 - K / 10 / 2 ^ 53 - N / 10 / 2 ^ 47 + 1 / 2 ^ 47 / 2 ^ 53"
    by (simp add: algebra_simps)
  moreover have "K * N / 100 - 1 / 2 ^ 40
      \<le> K * N / 100 - K / 10 / 2 ^ 53 - N / 10 / 2 ^ 47 + 1 / 2 ^ 47 / 2 ^ 53"
    using K N by simp
  ultimately have p2: "K * N / 100 - 1 / 2 ^ 40 \<le> used * fl q" by simp
  have KN: "0 \<le> K * N" "K * N \<le> 1350"
    using K N mult_mono[of K 150 N 9] by simp_all
  have "\<bar>used * fl q\<bar> \<le> 64" using p1 p2 KN u0 c0 by simp
  then have pb: "used * fl q - 1 / 2 ^ 47 \<le> fmul used (fl q)"
    "fmul used (fl q) \<le> used * fl q + 1 / 2 ^ 47"
    unfolding fmul_def by (rule fl_error_64)+
  define a where "a = rhe (fmul used (fl q) * 10 ^ 1)"
  have r: "py_round (fmul used (fl q)) 1 = fl (of_int a / 10)"
    by (simp add: py_round_def a_def)
  have ab: "fmul used (fl q) * 10 ^ 1 - 1 / 2 \<le> of_int a"
    "of_int a \<le> fmul used (fl q) * 10 ^ 1 + 1 / 2"
    unfolding a_def by (rule rhe_bounds)+
  have "(of_int (10 * a - n * k) :: rat) < of_int 6"
    using ab(2) pb(2) p1 by (simp add: K_def N_def algebra_simps)
  then have hi: "10 * a - n * k < 6" by (simp only: of_int_less_iff)
  have "(of_int (- 6) :: rat) < of_int (10 * a - n * k)"
    using ab(1) pb(1) p2 by (simp add: K_def N_def algebra_simps)
  then have lo: "- 6 < 10 * a - n * k" by (simp only: of_int_less_iff)
  show ?thesis using r hi lo by (intro exI[of _ a]) simp
qed

lemma choice_total:
  "fst (choice [5, 7, 10, 12, 15 :: int] w) \<in> {5, 7, 10, 12, 15}"
  using choice_mem[of "[5, 7, 10, 12, 15 :: int]" w] by auto

lemma leave_record_shape:
  "\<exists>k a b. lv_used (fst (leave_record i w)) = fl (of_int k / 10) \<and>
     lv_annual (fst (leave_record i w)) = fl (of_int a / 10) \<and>
     lv_sick (fst (leave_record i w)) = fl (of_int b / 10) \<and>
     lv_personal (fst (leave_record i w)) = fl (of_int b / 10) \<and>
     0 \<le> k \<and> k \<le> 10 * lv_total (fst (leave_record i w)) \<and> \<bar>a + 2 * b - k\<bar> \<le> 1"
proof -
  define total where "total = fst (choice [5, 7, 10, 12, 15 :: int] w)"
  define w1 where "w1 = snd (choice [5, 7, 10, 12, 15 :: int] w)"
  define u where "u = fst (uniform 0 total w1)"
  define used where "used = py_round u 1"
  define k where "k = rhe (u * 10 ^ 1)"
  have f: "lv_total (fst (leave_record i w)) = total"
    "lv_used (fst (leave_record i w)) = used"
    "lv_annual (fst (leave_record i w)) = py_round (fmul used (fl (6 / 10))) 1"
    "lv_sick (fst (leave_record i w)) = py_round (fmul used (fl (2 / 10))) 1"
    "lv_personal (fst (leave_record i w)) = py_round (fmul used (fl (2 / 10))) 1"
    by (simp_all add: leave_record_def Let_def split_beta total_def w1_def u_def used_def)
  have t: "0 \<le> total" "total \<le> 15" using choice_total[of w] by (auto simp: total_def)
  then have ub: "0 \<le> u" "u \<le> of_int total + 1 / 2 ^ 46"
    unfolding u_def by (intro uniform_range; simp)+
  have k0: "0 \<le> k" unfolding k_def using ub(1) by (intro rhe_nonneg) simp
  have "u * 10 ^ 1 \<le> of_int (10 * total) + 1 / 4" using ub(2) by simp
  then have k1: "k \<le> 10 * total" unfolding k_def by (rule rhe_le)
  have k2: "k \<le> 150" using k1 t by simp
  have used: "used = fl (of_int k / 10)" by (simp add: used_def py_round_def k_def)
  obtain a where a: "py_round (fmul used (fl (6 / 10))) 1 = fl (of_int a / 10)"
    "10 * a - 6 * k \<le> 5" "- 5 \<le> 10 * a - 6 * k"
    using tenths_of_fraction[OF k0 k2 used, of 6 "6 / 10"] by auto
  obtain b where b: "py_round (fmul used (fl (2 / 10))) 1 = fl (of_int b / 10)"
    "10 * b - 2 * k \<le> 5" "- 5 \<le> 10 * b - 2 * k"
    using tenths_of_fraction[OF k0 k2 used, of 2 "2 / 10"] by auto
  have "\<bar>a + 2 * b - k\<bar> \<le> 1" using a(2,3) b(2,3) by linarith
  then show ?thesis
    unfolding f using used a(1) b(1) k0 k1 by blast
qed

lemma leaves_loop_all:
  assumes "\<And>i w. P (fst (leave_record i w))"
  shows "\<forall>r \<in> set (fst (leaves_loop i n w)). P r"
  using assms by (induction n arbitrary: i w) (auto simp: split_beta Let_def)

lemma leave_record_fractions:
  "lv_annual (fst (leave_record i w)) = py_round (fmul (lv_used (fst (leave_record i w))) (fl (6 / 10))) 1 \<and>
   lv_sick (fst (leave_record i w)) = py_round (fmul (lv_used (fst (leave_record i w))) (fl (2 / 10))) 1 \<and>
   lv_personal (fst (leave_record i w)) = py_round (fmul (lv_used (fst (leave_record i w))) (fl (2 / 10))) 1"
  by (simp add: leave_record_def Let_def split_beta)

text \<open>
  Claim C2, amended: each of the three sub-category counts is the used days times its
  fraction (0.6, 0.2, 0.2), rounded to one decimal; read in tenths of a day (\<open>k\<close> used,
  \<open>a\<close> annual, \<open>b\<close> sick and personal), their sum differs from the used days by at most
  one tenth.
\<close>

theorem leave_fractions:
  "\<forall>r \<in> set (fst (generate_annual_leaves count w)).
     lv_annual r = py_round (fmul (lv_used r) (fl (6 / 10))) 1 \<and>
     lv_sick r = py_round (fmul (lv_used r) (fl (2 / 10))) 1 \<and>
     lv_personal r = py_round (fmul (lv_used r) (fl (2 / 10))) 1 \<and>
     (\<exists>k a b. lv_used r = fl (of_int k / 10) \<and> lv_annual r = fl (of_int a / 10) \<and>
        lv_sick r = fl (of_int b / 10) \<and> lv_personal r = fl (of_int b / 10) \<and>
        0 \<le> k \<and> k \<le> 10 * lv_total r \<and> \<bar>a + 2 * b - k\<bar> \<le> 1)"
  unfolding generate_annual_leaves_def
proof (rule leaves_loop_all)
  fix i w
  show "lv_annual (fst (leave_record i w)) = py_round (fmul (lv_used (fst (leave_record i w))) (fl (6 / 10))) 1 \<and>
     lv_sick (fst (leave_record i w)) = py_round (fmul (lv_used (fst (leave_record i w))) (fl (2 / 10))) 1 \<and>
     lv_personal (fst (leave_record i w)) = py_round (fmul (lv_used (fst (leave_record i w))) (fl (2 / 10))) 1 \<and>
     (\<exists>k a b. lv_used (fst (leave_record i w)) = fl (of_int k / 10) \<and>
        lv_annual (fst (leave_record i w)) = fl (of_int a / 10) \<and>
        lv_sick (fst (leave_record i w)) = fl (of_int b / 10) \<and>
        lv_personal (fst (leave_record i w)) = fl (of_int b / 10) \<and>
        0 \<le> k \<and> k \<le> 10 * lv_total (fst (leave_record i w)) \<and> \<bar>a + 2 * b - k\<bar> \<le> 1)"
    using leave_record_shape[of i w] leave_record_fractions[of i w] by blast
qed

lemma leaves_single: "fst (generate_annual_leaves 1 w) = [fst (leave_record 0 w)]"
proof -
  have "leaves_loop 0 (Suc 0) w = (fst (leave_record 0 w) # [], snd (leave_record 0 w))"
    by (simp add: split_beta)
  then show ?thesis by (simp add: generate_annual_leaves_def)
qed

text \<open>
  The record of the example world: 5 days in total, 0.2 used, split into 0.1, 0.0, 0.0.
\<close>

lemma leaves_example:
  "lv_total (fst (leave_record 0 world_leave)) = 5 \<and>
   lv_used (fst (leave_record 0 world_leave)) = 3602879701896397 / 18014398509481984 \<and>
   lv_annual (fst (leave_record 0 world_leave)) = 3602879701896397 / 36028797018963968 \<and>
   lv_sick (fst (leave_record 0 world_leave)) = 0 \<and>
   lv_personal (fst (leave_record 0 world_leave)) = 0"
proof -
  have e1: "py_round (fadd 0 (fmul 5 (1 / 32))) 1 = 3602879701896397 / 18014398509481984"
    by code_simp
  have e2: "py_round (fmul (3602879701896397 / 18014398509481984) (fl (6 / 10))) 1
      = 3602879701896397 / 36028797018963968"
    by code_simp
  have e3: "py_round (fmul (3602879701896397 / 18014398509481984) (fl (2 / 10))) 1 = 0"
    by code_simp
  have t: "lv_total (fst (leave_record 0 world_leave)) = 5"
    by (simp add: leave_record_def Let_def split_beta choice_def randbelow_def next_draw_def
        world_leave_def)
  have u: "lv_used (fst (leave_record 0 world_leave)) = py_round (fadd 0 (fmul 5 (1 / 32))) 1"
    by (simp add: leave_record_def Let_def split_beta choice_def uniform_def random_def
        randbelow_def next_draw_def world_leave_def)
  show ?thesis
    using leave_record_fractions[of 0 world_leave]
    unfolding t u e1 e2 e3 by simp
qed

text \<open>
  Claim C2, as stated: the three sub-category counts sum exactly to the used days. In
  the example world 0.2 days are used and the counts are 0.1, 0.0 and 0.0.
\<close>

theorem leave_fractions_counterexample:
  "\<not> (\<forall>r \<in> set (fst (generate_annual_leaves 1 world_leave)).
        lv_annual r + lv_sick r + lv_personal r = lv_used r)"
  using leaves_example by (simp add: leaves_single)

text \<open>
  Witness for the amended C2.
\<close>

theorem leave_fractions_witness:
  "\<exists>r. r \<in> set (fst (generate_annual_leaves 1 world_leave)) \<and> lv_total r = 5 \<and>
     lv_used r = 3602879701896397 / 18014398509481984 \<and>
     lv_annual r = py_round (fmul (lv_used r) (fl (6 / 10))) 1 \<and>
     lv_sick r = py_round (fmul (lv_used r) (fl (2 / 10))) 1 \<and>
     lv_personal r = py_round (fmul (lv_used r) (fl (2 / 10))) 1 \<and>
     (\<exists>k a b. lv_used r = fl (of_int k / 10) \<and> lv_annual r = fl (of_int a / 10) \<and>
        lv_sick r = fl (of_int b / 10) \<and> lv_personal r = fl (of_int b / 10) \<and>
        0 \<le> k \<and> k \<le> 10 * lv_total r \<and> \<bar>a + 2 * b - k\<bar> \<le> 1)"
proof -
  define r where "r = fst (leave_record 0 world_leave)"
  have mem: "r \<in> set (fst (generate_annual_leaves 1 world_leave))"
    by (simp add: leaves_single r_def)
  from leave_fractions[of 1 world_leave] mem
  have "lv_annual r = py_round (fmul (lv_used r) (fl (6 / 10))) 1 \<and>
     lv_sick r = py_round (fmul (lv_used r) (fl (2 / 10))) 1 \<and>
     lv_personal r = py_round (fmul (lv_used r) (fl (2 / 10))) 1 \<and>
     (\<exists>k a b. lv_used r = fl (of_int k / 10) \<and> lv_annual r = fl (of_int a / 10) \<and>
        lv_sick r = fl (of_int b / 10) \<and> lv_personal r = fl (of_int b / 10) \<and>
        0 \<le> k \<and> k \<le> 10 * lv_total r \<and> \<bar>a + 2 * b - k\<bar> \<le> 1)"
    by blast
  with mem leaves_example[folded r_def] show ?thesis by blast
qed


section \<open>Reproducibility\<close>

text \<open>
  The same draws one day later give the same record, one day later.
\<close>

lemma attendance_example_next_day:
  "fst (generate_attendance 1 world_next_day) = 
  [\<lparr>att_emp = ''EMP0001'', att_name = (0, 0), att_date = 739190, att_check_in = (9, 15, 0),
   att_check_out = (18, 0, 0), att_work_hours = 35 / 4, att_status = OnLeave,
   att_late_minutes = 0, att_early_minutes = 0, att_place = Headquarters, att_source = DingTalk,
   att_remark = TrafficJam\<rparr>]"
  by code_simp

text \<open>
  Claim C1. Two runs with the same random draws (the same seed) produce the same output.
  The attendance date is counted back from \<open>datetime.now()\<close>, so two runs on
  different days differ although every draw is the same.
\<close>

theorem attendance_depends_on_clock:
  "draws world_9_15 = draws world_next_day \<and>
   map att_date (fst (generate_attendance 1 world_9_15)) = [739189] \<and>
   map att_date (fst (generate_attendance 1 world_next_day)) = [739190] \<and>
   fst (generate_attendance 1 world_9_15) \<noteq> fst (generate_attendance 1 world_next_day)"
proof -
  have "draws world_9_15 = draws world_next_day"
    by (simp add: world_9_15_def world_next_day_def)
  then show ?thesis
    by (simp add: attendance_example attendance_example_next_day)
qed

end
